theory Spec2Isabelle
  imports Complex_Main
begin

section \<open>Tensors\<close>

text \<open>
  The notebook computes with tensors of the tensor library it imports.  A tensor is a
  shape and its elements in row-major order.  Elements are real numbers: the model
  idealises floating point.  Rounding, overflow and underflow are not modelled; a
  division by zero and the root of a negative number are kept as explicit results.  A
  computation either raises, or yields a value some element of which is not finite, or
  yields a tensor of reals:
  \<^item> \<open>RuntimeError\<close>: the library refuses the shapes (no broadcast, a view of the wrong
    size, a dimension out of range);
  \<^item> \<open>UnboundLocalError\<close>, \<open>NameError\<close>, \<open>AttributeError\<close>, \<open>TypeError\<close>,
    \<open>ZeroDivisionError\<close>: Python's own errors;
  \<^item> \<open>NaN\<close>: some element is \<open>0 / 0\<close> (or the root of a negative number);
    \<open>Inf\<close>: some element is \<open>x / 0\<close> with \<open>x \<noteq> 0\<close>.  The library does not raise
    there; the real-valued model has no number to go on with.
\<close>

datatype err =
  RuntimeError | UnboundLocalError | NameError | AttributeError | TypeError | ZeroDivisionError
  | NaN | Inf

type_synonym 'a res = "err + 'a"

record ten =
  shape :: "nat list"
  data :: "real list"

definition wf_ten :: "ten \<Rightarrow> bool" where
  "wf_ten t = (length (data t) = prod_list (shape t))"

text \<open>Row-major position of a multi-index, and back.\<close>

fun ravel :: "nat list \<Rightarrow> nat list \<Rightarrow> nat" where
  "ravel (n # ns) (i # js) = i * prod_list ns + ravel ns js"
| "ravel _ _ = 0"

fun unravel :: "nat list \<Rightarrow> nat \<Rightarrow> nat list" where
  "unravel [] k = []"
| "unravel (n # ns) k = (k div prod_list ns) # unravel ns (k mod prod_list ns)"

definition valid :: "nat list \<Rightarrow> nat list \<Rightarrow> bool" where
  "valid s idx = list_all2 (\<lambda>i n. i < n) idx s"

definition elt :: "ten \<Rightarrow> nat list \<Rightarrow> real" where
  "elt t idx = data t ! ravel (shape t) idx"

definition tgen :: "nat list \<Rightarrow> (nat list \<Rightarrow> real) \<Rightarrow> ten" where
  "tgen s f = \<lparr>shape = s, data = map (\<lambda>k. f (unravel s k)) [0..<prod_list s]\<rparr>"

text \<open>A dimension argument: negative values count from the last dimension.\<close>

definition norm_dim :: "nat \<Rightarrow> int \<Rightarrow> nat option" where
  "norm_dim r d =
     (if - int r \<le> d \<and> d < int r then Some (nat (if d < 0 then d + int r else d)) else None)"

text \<open>
  Broadcasting: shapes are aligned at their last dimension; two sizes agree when they are
  equal or one of them is 1.
\<close>

fun bshape_rev :: "nat list \<Rightarrow> nat list \<Rightarrow> nat list option" where
  "bshape_rev [] ys = Some ys"
| "bshape_rev xs [] = Some xs"
| "bshape_rev (x # xs) (y # ys) =
     (if x = y \<or> y = 1 then map_option ((#) x) (bshape_rev xs ys)
      else if x = 1 then map_option ((#) y) (bshape_rev xs ys)
      else None)"

definition bshape :: "nat list \<Rightarrow> nat list \<Rightarrow> nat list option" where
  "bshape s t = map_option rev (bshape_rev (rev s) (rev t))"

definition bidx :: "nat list \<Rightarrow> nat list \<Rightarrow> nat list" where
  "bidx s idx = map2 (\<lambda>n i. if n = 1 then 0 else i) s (drop (length idx - length s) idx)"

subsection \<open>Elementwise operations\<close>

definition tmap :: "(real \<Rightarrow> real) \<Rightarrow> ten \<Rightarrow> ten" where
  "tmap f a = \<lparr>shape = shape a, data = map f (data a)\<rparr>"

fun t_map :: "(real \<Rightarrow> real) \<Rightarrow> ten res \<Rightarrow> ten res" where
  "t_map f (Inr a) = Inr (tmap f a)"
| "t_map f (Inl e) = Inl e"

fun t_bin :: "(real \<Rightarrow> real \<Rightarrow> real) \<Rightarrow> ten res \<Rightarrow> ten res \<Rightarrow> ten res" where
  "t_bin f (Inr a) (Inr b) =
     (case bshape (shape a) (shape b) of
        None \<Rightarrow> Inl RuntimeError
      | Some s \<Rightarrow> Inr (tgen s (\<lambda>idx. f (elt a (bidx (shape a) idx)) (elt b (bidx (shape b) idx)))))"
| "t_bin f (Inl e) _ = Inl e"
| "t_bin f _ (Inl e) = Inl e"

definition t_add :: "ten res \<Rightarrow> ten res \<Rightarrow> ten res" where
  "t_add = t_bin (+)"

definition t_sub :: "ten res \<Rightarrow> ten res \<Rightarrow> ten res" where
  "t_sub = t_bin (-)"

definition t_mul :: "ten res \<Rightarrow> ten res \<Rightarrow> ten res" where
  "t_mul = t_bin (*)"

text \<open>
  Division checks the divisor after broadcasting: \<open>0 / 0\<close> is \<open>NaN\<close>, \<open>x / 0\<close> is
  \<open>Inf\<close>.
\<close>

fun t_div :: "ten res \<Rightarrow> ten res \<Rightarrow> ten res" where
  "t_div (Inr a) (Inr b) =
     (case bshape (shape a) (shape b) of
        None \<Rightarrow> Inl RuntimeError
      | Some s \<Rightarrow>
          (let num = tgen s (\<lambda>idx. elt a (bidx (shape a) idx));
               den = tgen s (\<lambda>idx. elt b (bidx (shape b) idx))
           in if list_ex (\<lambda>(x, y). y = 0 \<and> x = 0) (zip (data num) (data den)) then Inl NaN
              else if list_ex (\<lambda>y. y = 0) (data den) then Inl Inf
              else Inr (tgen s (\<lambda>idx. elt num idx / elt den idx))))"
| "t_div (Inl e) _ = Inl e"
| "t_div _ (Inl e) = Inl e"

text \<open>Operations between a tensor and a Python number.\<close>

definition t_adds :: "real \<Rightarrow> ten res \<Rightarrow> ten res" where
  "t_adds c = t_map (\<lambda>x. c + x)"

definition t_rsub :: "real \<Rightarrow> ten res \<Rightarrow> ten res" where
  "t_rsub c = t_map (\<lambda>x. c - x)"

definition t_subs :: "ten res \<Rightarrow> real \<Rightarrow> ten res" where
  "t_subs a c = t_map (\<lambda>x. x - c) a"

definition t_muls :: "real \<Rightarrow> ten res \<Rightarrow> ten res" where
  "t_muls c = t_map (\<lambda>x. c * x)"

fun t_divs :: "ten res \<Rightarrow> real \<Rightarrow> ten res" where
  "t_divs (Inr a) c =
     (if c = 0 then (if list_ex (\<lambda>x. x = 0) (data a) then Inl NaN else Inl Inf)
      else Inr (tmap (\<lambda>x. x / c) a))"
| "t_divs (Inl e) c = Inl e"

definition t_pow :: "ten res \<Rightarrow> nat \<Rightarrow> ten res" where
  "t_pow a k = t_map (\<lambda>x. x ^ k) a"

fun t_sqrt :: "ten res \<Rightarrow> ten res" where
  "t_sqrt (Inr a) =
     (if list_ex (\<lambda>x. x < 0) (data a) then Inl NaN
      else Inr (tmap sqrt a))"
| "t_sqrt (Inl e) = Inl e"

definition relu :: "ten res \<Rightarrow> ten res" where
  "relu = t_map (\<lambda>x. max 0 x)"

subsection \<open>Reductions\<close>

fun t_sum :: "ten res \<Rightarrow> int \<Rightarrow> bool \<Rightarrow> ten res" where
  "t_sum (Inr a) dm keepdim =
     (case norm_dim (length (shape a)) dm of
        None \<Rightarrow> Inl RuntimeError
      | Some d \<Rightarrow>
          Inr (if keepdim
               then tgen ((shape a)[d := 1])
                      (\<lambda>idx. sum_list (map (\<lambda>k. elt a (idx[d := k])) [0..<shape a ! d]))
               else tgen (take d (shape a) @ drop (Suc d) (shape a))
                      (\<lambda>idx. sum_list (map (\<lambda>k. elt a (take d idx @ k # drop d idx))
                                        [0..<shape a ! d]))))"
| "t_sum (Inl e) dm keepdim = Inl e"

text \<open>The sum of all elements is a tensor with one element.\<close>

fun t_sum_all :: "ten res \<Rightarrow> ten res" where
  "t_sum_all (Inr a) = Inr \<lparr>shape = [1], data = [sum_list (data a)]\<rparr>"
| "t_sum_all (Inl e) = Inl e"

section \<open>The squashing function\<close>

text \<open>
  \<^verbatim>\<open>
  def squash_vector(tensor, dim=-1):
      squared_norm = (tensor**2).sum(dim=dim, keepdim=True)
      scale = squared_norm / (1 + squared_norm)
      return scale * tensor / torch.sqrt(squared_norm)
  \<close>
  The library evaluates the three lines in 32-bit floating point.  There
  \<open>1 + squared_norm\<close> rounds to \<open>squared_norm\<close> from \<open>2\<^sup>2\<^sup>4\<close> on, which makes
  \<open>scale\<close> exactly 1, and \<open>squared_norm\<close> overflows to infinity or underflows to 0 on
  slices that are not zero.  The real-valued model below shows none of this rounding, so
  nothing here bounds the norm of what the library's \<open>squash_vector\<close> returns.
\<close>

definition squash_vector :: "ten res \<Rightarrow> int \<Rightarrow> ten res" where
  "squash_vector tensor dm =
     (let squared_norm = t_sum (t_pow tensor 2) dm True;
          scale = t_div squared_norm (t_adds 1 squared_norm)
      in t_div (t_mul scale tensor) (t_sqrt squared_norm))"

text \<open>The tensor of shape \<open>s\<close> all of whose elements are \<open>c\<close>.\<close>

definition full :: "nat list \<Rightarrow> real \<Rightarrow> ten" where
  "full s c = tgen s (\<lambda>idx. c)"

text \<open>
  The squared Euclidean norm of the slice of \<open>t\<close> through \<open>idx\<close> along dimension \<open>d\<close>.
\<close>

definition sqnorm :: "ten \<Rightarrow> nat \<Rightarrow> nat list \<Rightarrow> real" where
  "sqnorm t d idx = (\<Sum>k<shape t ! d. (elt t (idx[d := k]))\<^sup>2)"

section \<open>The loss\<close>

text \<open>
  \<open>tensor.size(i)\<close> for a dimension the tensor has; the library raises otherwise.
\<close>

fun t_size :: "ten res \<Rightarrow> nat \<Rightarrow> nat res" where
  "t_size (Inr a) i = (if i < length (shape a) then Inr (shape a ! i) else Inl RuntimeError)"
| "t_size (Inl e) i = Inl e"

text \<open>A tensor divided by a Python integer.\<close>

fun t_divn :: "ten res \<Rightarrow> nat res \<Rightarrow> ten res" where
  "t_divn (Inl e) _ = Inl e"
| "t_divn (Inr a) (Inl e) = Inl e"
| "t_divn (Inr a) (Inr n) = t_divs (Inr a) (real n)"

text \<open>
  \<open>nn.MSELoss(size_average=False)\<close>: the sum of the squared differences.  The release
  of the library the notebook was written for (it wraps tensors in \<open>Variable\<close> and
  reads \<open>loss.data[0]\<close>) compares the two tensors element by element in storage order
  and only asks that they have the same number of elements; the notebook relies on that,
  passing reconstructions of shape \<open>(n, 784)\<close> and images of shape \<open>(n, 1, 28, 28)\<close>.
\<close>

fun mse_loss_sum :: "ten res \<Rightarrow> ten res \<Rightarrow> ten res" where
  "mse_loss_sum (Inr input) (Inr target) =
     (if prod_list (shape input) = prod_list (shape target)
      then Inr \<lparr>shape = [1],
                data = [sum_list (map2 (\<lambda>x y. (x - y)\<^sup>2) (data input) (data target))]\<rparr>
      else Inl RuntimeError)"
| "mse_loss_sum (Inl e) _ = Inl e"
| "mse_loss_sum _ (Inl e) = Inl e"

text \<open>
  \<^verbatim>\<open>
  class MarginLoss(nn.Module):
      def __init__(self):
          super().__init__()
          # Reconstruction as regularization
          self.reconstruction_loss = nn.MSELoss(size_average=False)

      def forward(self, images, labels, classes, reconstructions):
          left = F.relu(0.9 - classes, inplace=True) ** 2
          right = F.relu(classes - 0.1, inplace=True) ** 2
          margin_loss = labels * left + 0.5 * (1. - labels) * right
          margin_loss = margin_loss.sum()
          reconstruction_loss = self.reconstruction_loss(reconstructions, images)

          return (margin_loss + 0.0005 * reconstruction_loss) / images.size(0)
  \<close>
  The two \<open>relu\<close> calls work in place on temporaries, so nothing the caller holds changes.
\<close>

definition MarginLoss_forward :: "ten res \<Rightarrow> ten res \<Rightarrow> ten res \<Rightarrow> ten res \<Rightarrow> ten res" where
  "MarginLoss_forward images labels classes reconstructions =
     (let left = t_pow (relu (t_rsub 0.9 classes)) 2;
          right = t_pow (relu (t_subs classes 0.1)) 2;
          margin_loss = t_add (t_mul labels left) (t_mul (t_muls 0.5 (t_rsub 1 labels)) right);
          margin_loss = t_sum_all margin_loss;
          reconstruction_loss = mse_loss_sum reconstructions images
      in t_divn (t_add margin_loss (t_muls 0.0005 reconstruction_loss)) (t_size images 0))"

text \<open>
  The loss as the specification words it, for class scores and labels of shape \<open>(n, k)\<close>:
  the margin term summed over samples and classes, plus 0.0005 times the summed squared
  error, divided by the batch size.
\<close>

definition margin_term :: "real \<Rightarrow> real \<Rightarrow> real" where
  "margin_term label score =
     label * (max 0 (0.9 - score))\<^sup>2 + 0.5 * (1 - label) * (max 0 (score - 0.1))\<^sup>2"

definition joint_loss :: "ten \<Rightarrow> ten \<Rightarrow> ten \<Rightarrow> ten \<Rightarrow> nat \<Rightarrow> nat \<Rightarrow> real" where
  "joint_loss images labels classes reconstructions n k =
     ((\<Sum>i<n. \<Sum>j<k. margin_term (elt labels [i, j]) (elt classes [i, j]))
      + 0.0005 * (\<Sum>q<prod_list (shape images). (data reconstructions ! q - data images ! q)\<^sup>2))
     / real n"

section \<open>More of the tensor library\<close>

text \<open>
  Indexing with \<open>:\<close> and \<open>None\<close> only, as in \<open>x[None, :, :, None, :]\<close>: \<open>None\<close> inserts a
  dimension of size 1, \<open>:\<close> keeps the next dimension, dimensions not mentioned are kept.
  The elements stay where they are.
\<close>

datatype ix = All | NewAxis

fun index_shape :: "ix list \<Rightarrow> nat list \<Rightarrow> nat list option" where
  "index_shape [] s = Some s"
| "index_shape (NewAxis # is) s = map_option ((#) 1) (index_shape is s)"
| "index_shape (All # is) [] = None"
| "index_shape (All # is) (n # s) = map_option ((#) n) (index_shape is s)"

fun t_index :: "ten res \<Rightarrow> ix list \<Rightarrow> ten res" where
  "t_index (Inr a) is =
     (case index_shape is (shape a) of
        None \<Rightarrow> Inl RuntimeError
      | Some s \<Rightarrow> Inr \<lparr>shape = s, data = data a\<rparr>)"
| "t_index (Inl e) is = Inl e"

text \<open>
  The matrix product \<open>a @ b\<close> of tensors of rank 2 or more: the last two dimensions are
  multiplied as matrices, the dimensions before them are broadcast.  (The rules of \<open>@\<close>
  for vectors are left out: the operands in the notebook come from an indexing with
  five entries.)
\<close>

fun t_matmul :: "ten res \<Rightarrow> ten res \<Rightarrow> ten res" where
  "t_matmul (Inr a) (Inr b) =
     (let ra = length (shape a); rb = length (shape b) in
      if ra < 2 \<or> rb < 2 then Inl RuntimeError
      else if shape a ! (ra - 1) \<noteq> shape b ! (rb - 2) then Inl RuntimeError
      else (case bshape (take (ra - 2) (shape a)) (take (rb - 2) (shape b)) of
              None \<Rightarrow> Inl RuntimeError
            | Some bs \<Rightarrow>
                Inr (tgen (bs @ [shape a ! (ra - 2), shape b ! (rb - 1)])
                      (\<lambda>idx. let bi = take (length bs) idx;
                                 i = idx ! length bs;
                                 j = idx ! Suc (length bs)
                             in sum_list (map (\<lambda>k. elt a (bidx (take (ra - 2) (shape a)) bi @ [i, k])
                                                  * elt b (bidx (take (rb - 2) (shape b)) bi @ [k, j]))
                                              [0..<shape a ! (ra - 1)])))))"
| "t_matmul (Inl e) _ = Inl e"
| "t_matmul _ (Inl e) = Inl e"

definition t_zeros :: "nat list \<Rightarrow> ten res" where
  "t_zeros s = Inr (tgen s (\<lambda>idx. 0))"

fun t_shape :: "ten res \<Rightarrow> nat list res" where
  "t_shape (Inr a) = Inr (shape a)"
| "t_shape (Inl e) = Inl e"

fun t_transpose :: "ten res \<Rightarrow> int \<Rightarrow> int \<Rightarrow> ten res" where
  "t_transpose (Inr a) d0 d1 =
     (case (norm_dim (length (shape a)) d0, norm_dim (length (shape a)) d1) of
        (Some i, Some j) \<Rightarrow>
          Inr (tgen ((shape a)[i := shape a ! j, j := shape a ! i])
                 (\<lambda>idx. elt a (idx[i := idx ! j, j := idx ! i])))
      | _ \<Rightarrow> Inl RuntimeError)"
| "t_transpose (Inl e) d0 d1 = Inl e"

text \<open>
  \<open>view\<close>: the new sizes may hold one \<open>-1\<close>, which is inferred; the number of elements
  must not change.  The elements stay where they are.
\<close>

definition view_shape :: "nat \<Rightarrow> int list \<Rightarrow> nat list option" where
  "view_shape numel dims =
     (if list_all (\<lambda>d. 0 \<le> d) dims
      then (if prod_list (map nat dims) = numel then Some (map nat dims) else None)
      else if length (filter (\<lambda>d. d = - 1) dims) = 1 \<and> list_all (\<lambda>d. - 1 \<le> d) dims
      then (let p = prod_list (map nat (filter (\<lambda>d. d \<noteq> - 1) dims)) in
            if 0 < p \<and> numel mod p = 0
            then Some (map (\<lambda>d. if d = - 1 then numel div p else nat d) dims)
            else None)
      else None)"

fun t_view :: "ten res \<Rightarrow> int list \<Rightarrow> ten res" where
  "t_view (Inr a) dims =
     (case view_shape (prod_list (shape a)) dims of
        None \<Rightarrow> Inl RuntimeError
      | Some s \<Rightarrow> Inr \<lparr>shape = s, data = data a\<rparr>)"
| "t_view (Inl e) dims = Inl e"

text \<open>
  \<open>F.softmax(input)\<close> without a dimension, as the notebook calls it: the library picks
  dimension 0 for tensors of rank 0, 1 and 3, and dimension 1 otherwise.  The divisor is a
  sum of exponentials over a non-empty range, so it is never zero.
\<close>

definition softmax_along :: "ten \<Rightarrow> nat \<Rightarrow> ten" where
  "softmax_along a d =
     tgen (shape a)
       (\<lambda>idx. exp (elt a idx) / sum_list (map (\<lambda>k. exp (elt a (idx[d := k]))) [0..<shape a ! d]))"

fun F_softmax :: "ten res \<Rightarrow> ten res" where
  "F_softmax (Inr a) =
     (let r = length (shape a) in
      if r = 0 then Inr (tgen [] (\<lambda>idx. 1))
      else Inr (softmax_along a (if r = 1 \<or> r = 3 then 0 else 1)))"
| "F_softmax (Inl e) = Inl e"

section \<open>The notebook's softmax\<close>

text \<open>
  \<^verbatim>\<open>
  def softmax(input, dim=1):
      transposed_input = input.transpose(dim, len(input.size()) - 1)
      softmaxed_output = F.softmax(
          transposed_input.contiguous().view(-1, transposed_input.size(-1)))
      return softmaxed_output.view(*transposed_input.size()).transpose(dim, len(input.size()) - 1)
  \<close>
  \<open>contiguous()\<close> changes nothing in a model whose tensors are always stored row-major.
\<close>

fun t_size_last :: "ten res \<Rightarrow> nat res" where
  "t_size_last (Inr a) = (if shape a = [] then Inl RuntimeError else Inr (last (shape a)))"
| "t_size_last (Inl e) = Inl e"

fun t_rank :: "ten res \<Rightarrow> nat res" where
  "t_rank (Inr a) = Inr (length (shape a))"
| "t_rank (Inl e) = Inl e"

definition softmax :: "ten res \<Rightarrow> int \<Rightarrow> ten res" where
  "softmax input dm =
     (case t_rank input of Inl e \<Rightarrow> Inl e | Inr r \<Rightarrow>
      let transposed_input = t_transpose input dm (int r - 1) in
      case t_size_last transposed_input of Inl e \<Rightarrow> Inl e | Inr l \<Rightarrow>
      let softmaxed_output = F_softmax (t_view transposed_input [- 1, int l]) in
      case t_shape transposed_input of Inl e \<Rightarrow> Inl e | Inr s \<Rightarrow>
      t_transpose (t_view softmaxed_output (map int s)) dm (int r - 1))"

section \<open>The capsule layer\<close>

text \<open>
  \<^verbatim>\<open>
  class CapsuleLayer(nn.Module):
      def __init__(self, num_capsules, num_routes, in_channels, out_channels,
                   kernel_size=None, stride=None, num_iterations=3):
          super().__init__()
          self.num_routes = num_routes
          self.num_iterations = num_iterations
          self.num_capsules = num_capsules
          if num_routes != -1:
              self.route_weights = nn.Parameter(
                  torch.randn(num_capsules, num_routes, in_channels, out_channels))
          else:
              self.capsules = nn.ModuleList(
                  [nn.Conv2d(in_channels, out_channels, kernel_size=kernel_size,
                             stride=stride, padding=0)
                   for _ in range(num_capsules)])
  \<close>
  The parameters start at random values and are then changed by training.  In the model
  they are whatever the record holds; the constructor fixes their shapes and takes the
  values as arguments.
\<close>

record Conv2d =
  weight :: ten
  bias :: ten
  conv_stride :: nat

record CapsuleLayer =
  num_routes :: int
  num_iterations :: int
  num_capsules :: nat
  route_weights :: "ten option"
  capsules :: "Conv2d list option"

definition new_Conv2d ::
  "nat \<Rightarrow> nat \<Rightarrow> nat \<Rightarrow> nat \<Rightarrow> (nat list \<Rightarrow> real) \<times> (nat list \<Rightarrow> real) \<Rightarrow> Conv2d" where
  "new_Conv2d in_channels out_channels kernel_size stride init =
     \<lparr>weight = tgen [out_channels, in_channels, kernel_size, kernel_size] (fst init),
      bias = tgen [out_channels] (snd init),
      conv_stride = stride\<rparr>"

text \<open>
  \<open>randn\<close> stands for the values drawn for the routing weights, \<open>inits k\<close> for those
  of the \<open>k\<close>-th convolution.  \<open>torch.randn\<close> refuses a negative size, and
  \<open>nn.Conv2d\<close> a kernel size or stride that is \<open>None\<close>.
\<close>

definition new_CapsuleLayer ::
  "nat \<Rightarrow> int \<Rightarrow> nat \<Rightarrow> nat \<Rightarrow> nat option \<Rightarrow> nat option \<Rightarrow> int \<Rightarrow> (nat list \<Rightarrow> real)
   \<Rightarrow> (nat \<Rightarrow> (nat list \<Rightarrow> real) \<times> (nat list \<Rightarrow> real)) \<Rightarrow> CapsuleLayer res" where
  "new_CapsuleLayer n_capsules n_routes in_channels out_channels kernel_size stride n_iterations
       randn inits =
     (if n_routes \<noteq> - 1
      then (if n_routes < 0 then Inl RuntimeError
            else Inr \<lparr>num_routes = n_routes, num_iterations = n_iterations,
                      num_capsules = n_capsules,
                      route_weights =
                        Some (tgen [n_capsules, nat n_routes, in_channels, out_channels] randn),
                      capsules = None\<rparr>)
      else (case (kernel_size, stride) of
              (Some k, Some s) \<Rightarrow>
                Inr \<lparr>num_routes = n_routes, num_iterations = n_iterations,
                     num_capsules = n_capsules,
                     route_weights = None,
                     capsules =
                       Some (map (\<lambda>j. new_Conv2d in_channels out_channels k s (inits j))
                                 [0..<n_capsules])\<rparr>
            | _ \<Rightarrow> Inl TypeError))"

text \<open>
  \<open>nn.Conv2d\<close> with padding 0 on a batch \<open>(N, C, H, W)\<close>: output element
  \<open>(n, o, i, j)\<close> is the bias of channel \<open>o\<close> plus the sum over input channels and
  kernel positions of weight times input.
\<close>

fun conv2d :: "Conv2d \<Rightarrow> ten res \<Rightarrow> ten res" where
  "conv2d c (Inr x) =
     (case (shape x, shape (weight c)) of
        ([n, ci, h, w], [co, ci', kh, kw]) \<Rightarrow>
          if ci \<noteq> ci' \<or> h < kh \<or> w < kw \<or> conv_stride c = 0 \<or> shape (bias c) \<noteq> [co]
          then Inl RuntimeError
          else Inr (tgen [n, co, (h - kh) div conv_stride c + 1, (w - kw) div conv_stride c + 1]
                 (\<lambda>idx. elt (bias c) [idx ! 1]
                    + sum_list (map (\<lambda>q. sum_list (map (\<lambda>u. sum_list (map (\<lambda>v.
                          elt (weight c) [idx ! 1, q, u, v]
                          * elt x [idx ! 0, q, idx ! 2 * conv_stride c + u,
                                   idx ! 3 * conv_stride c + v])
                        [0..<kw])) [0..<kh])) [0..<ci])))
      | _ \<Rightarrow> Inl RuntimeError)"
| "conv2d c (Inl e) = Inl e"

text \<open>
  \<open>torch.cat(tensors, dim)\<close>: the tensors agree in every dimension but \<open>dim\<close>, along
  which they are laid one after the other.
\<close>

fun cat_pick :: "ten list \<Rightarrow> nat \<Rightarrow> nat list \<Rightarrow> real" where
  "cat_pick [] d idx = 0"
| "cat_pick (t # ts) d idx =
     (if idx ! d < shape t ! d then elt t idx
      else cat_pick ts d (idx[d := idx ! d - shape t ! d]))"

fun sequence :: "'a res list \<Rightarrow> 'a list res" where
  "sequence [] = Inr []"
| "sequence (Inl e # xs) = Inl e"
| "sequence (Inr x # xs) = (case sequence xs of Inl e \<Rightarrow> Inl e | Inr ys \<Rightarrow> Inr (x # ys))"

definition t_cat :: "ten res list \<Rightarrow> int \<Rightarrow> ten res" where
  "t_cat tensors dm =
     (case sequence tensors of
        Inl e \<Rightarrow> Inl e
      | Inr [] \<Rightarrow> Inl RuntimeError
      | Inr (t # ts) \<Rightarrow>
          (case norm_dim (length (shape t)) dm of
             None \<Rightarrow> Inl RuntimeError
           | Some d \<Rightarrow>
               if list_all (\<lambda>u. (shape u)[d := 0] = (shape t)[d := 0]) ts
               then Inr (tgen ((shape t)[d := sum_list (map (\<lambda>u. shape u ! d) (t # ts))])
                          (cat_pick (t # ts) d))
               else Inl RuntimeError))"

text \<open>
  \<^verbatim>\<open>
      def forward(self, x):
          # If routing is defined
          if self.num_routes != -1:
              priors = x[None, :, :, None, :] @ self.route_weights[:, None, :, :, :]

              logits = Variable(torch.zeros(priors.size())).cuda()

              # Routing algorithm
              for i in range(self.num_iterations):
                  probs = softmax(logits, dim=2)
                  outputs = squash_vector(
                      probs * priors).sum(dim=2, keepdim=True)

                  if i != self.num_iterations - 1:
                      delta_logits = (priors * outputs).sum(dim=-1, keepdim=True)
                      logits = logits + delta_logits

          else:
              outputs = [capsule(x).view(x.size(0), -1, 1)
                         for capsule in self.capsules]
              outputs = torch.cat(outputs, dim=-1)
              outputs = squash_vector(outputs)

          return outputs
  \<close>
  The loop is a recursion over \<open>range(num_iterations)\<close>.  The state of the loop is
  the two variables the body assigns, \<open>logits\<close> and \<open>outputs\<close> (unbound before the
  first iteration), and two ghost lists that only record what happened: the values of
  \<open>i\<close> for which the body ran, and those for which it assigned \<open>logits\<close>.  An
  exception ends the loop; a value that is not finite does not.
\<close>

definition raises :: "err \<Rightarrow> bool" where
  "raises e = (e \<noteq> NaN \<and> e \<noteq> Inf)"

fun is_raise :: "'a res \<Rightarrow> bool" where
  "is_raise (Inl e) = raises e"
| "is_raise (Inr v) = False"

definition range :: "int \<Rightarrow> int list" where
  "range n = map int [0..<nat n]"

record routing_state =
  st_logits :: "ten res"
  st_outputs :: "ten res option"
  st_executed :: "int list"
  st_updated :: "int list"

definition routing_iteration :: "CapsuleLayer \<Rightarrow> ten res \<Rightarrow> routing_state \<Rightarrow> int \<Rightarrow> routing_state" where
  "routing_iteration self priors st i =
     (let logits = st_logits st;
          probs = softmax logits 2;
          outputs = t_sum (squash_vector (t_mul probs priors) (- 1)) 2 True
      in if i \<noteq> num_iterations self - 1
         then (let delta_logits = t_sum (t_mul priors outputs) (- 1) True;
                   logits = t_add logits delta_logits
               in \<lparr>st_logits = logits, st_outputs = Some outputs,
                   st_executed = st_executed st @ [i], st_updated = st_updated st @ [i]\<rparr>)
         else \<lparr>st_logits = logits, st_outputs = Some outputs,
                st_executed = st_executed st @ [i], st_updated = st_updated st\<rparr>)"

definition routing_priors :: "CapsuleLayer \<Rightarrow> ten res \<Rightarrow> ten res" where
  "routing_priors self x =
     (case route_weights self of
        None \<Rightarrow> Inl AttributeError
      | Some rw \<Rightarrow> t_matmul (t_index x [NewAxis, All, All, NewAxis, All])
                           (t_index (Inr rw) [All, NewAxis, All, All, All]))"

definition routing_start :: "ten res \<Rightarrow> routing_state" where
  "routing_start priors =
     \<lparr>st_logits = (case t_shape priors of Inl e \<Rightarrow> Inl e | Inr s \<Rightarrow> t_zeros s),
      st_outputs = None, st_executed = [], st_updated = []\<rparr>"

definition raised :: "routing_state \<Rightarrow> bool" where
  "raised st =
     (is_raise (st_logits st) \<or> (case st_outputs st of None \<Rightarrow> False | Some out \<Rightarrow> is_raise out))"

fun routing_loop :: "CapsuleLayer \<Rightarrow> ten res \<Rightarrow> routing_state \<Rightarrow> int list \<Rightarrow> routing_state" where
  "routing_loop self priors st [] = st"
| "routing_loop self priors st (i # is) =
     (let st' = routing_iteration self priors st i in
      if raised st' then st' else routing_loop self priors st' is)"

definition routing :: "CapsuleLayer \<Rightarrow> ten res \<Rightarrow> routing_state" where
  "routing self x =
     (let priors = routing_priors self x;
          st = routing_start priors
      in if raised st then st else routing_loop self priors st (range (num_iterations self)))"

definition CapsuleLayer_forward :: "CapsuleLayer \<Rightarrow> ten res \<Rightarrow> ten res" where
  "CapsuleLayer_forward self x =
     (if num_routes self \<noteq> - 1
      then (let st = routing self x in
            if is_raise (st_logits st) then st_logits st
            else (case st_outputs st of
                    None \<Rightarrow> Inl UnboundLocalError
                  | Some outputs \<Rightarrow> outputs))
      else (case capsules self of
              None \<Rightarrow> Inl AttributeError
            | Some cs \<Rightarrow>
                (let outputs = map (\<lambda>capsule.
                                      case t_size x 0 of
                                        Inl e \<Rightarrow> Inl e
                                      | Inr n \<Rightarrow> t_view (conv2d capsule x) [int n, - 1, 1]) cs;
                     outputs = t_cat outputs (- 1);
                     outputs = squash_vector outputs (- 1)
                 in outputs)))"

text \<open>
  A value that is not an exception: a well-formed tensor of shape \<open>s\<close>, or the mark of a
  non-finite element.
\<close>

definition okv :: "nat list \<Rightarrow> ten res \<Rightarrow> bool" where
  "okv s v = (case v of Inr t \<Rightarrow> wf_ten t \<and> shape t = s | Inl e \<Rightarrow> \<not> raises e)"

section \<open>The network\<close>

subsection \<open>Library operations the network uses\<close>

text \<open>\<open>squeeze()\<close> drops every dimension of size 1.\<close>

fun t_squeeze :: "ten res \<Rightarrow> ten res" where
  "t_squeeze (Inr a) = Inr \<lparr>shape = filter (\<lambda>n. n \<noteq> 1) (shape a), data = data a\<rparr>"
| "t_squeeze (Inl e) = Inl e"

text \<open>\<open>tensor ** 0.5\<close>: the square root; not a number for a negative element.\<close>

definition t_pow_half :: "ten res \<Rightarrow> ten res" where
  "t_pow_half a = t_sqrt a"

text \<open>
  A tensor of indices (\<open>LongTensor\<close>), as \<open>max\<close> returns and \<open>index_select\<close> takes.
\<close>

record lten =
  lshape :: "nat list"
  ldata :: "nat list"

text \<open>
  \<open>tensor.max(dim, keepdim)\<close> gives the largest element along \<open>dim\<close> and its
  position, and drops the dimension or keeps it with size 1.  The model takes the first
  position of the largest element.
\<close>

fun argmax_from :: "(nat \<Rightarrow> real) \<Rightarrow> nat \<Rightarrow> nat \<Rightarrow> nat \<Rightarrow> nat" where
  "argmax_from f best k 0 = best"
| "argmax_from f best k (Suc m) = argmax_from f (if f best < f k then k else best) (Suc k) m"

definition argmax :: "(nat \<Rightarrow> real) \<Rightarrow> nat \<Rightarrow> nat" where
  "argmax f n = argmax_from f 0 1 (n - 1)"

fun t_max_indices :: "ten res \<Rightarrow> int \<Rightarrow> bool \<Rightarrow> lten res" where
  "t_max_indices (Inr a) dm keepdim =
     (case norm_dim (length (shape a)) dm of
        None \<Rightarrow> Inl RuntimeError
      | Some d \<Rightarrow>
          if shape a ! d = 0 then Inl RuntimeError
          else (let s = take d (shape a) @ drop (Suc d) (shape a) in
                Inr \<lparr>lshape = (if keepdim then (shape a)[d := 1] else s),
                     ldata = map (\<lambda>q. let idx = unravel s q in
                                       argmax (\<lambda>k. elt a (take d idx @ k # drop d idx)) (shape a ! d))
                                 [0..<prod_list s]\<rparr>))"
| "t_max_indices (Inl e) dm keepdim = Inl e"

definition t_eye :: "nat \<Rightarrow> ten res" where
  "t_eye n = Inr (tgen [n, n] (\<lambda>idx. if idx ! 0 = idx ! 1 then 1 else 0))"

text \<open>
  \<open>tensor.index_select(dim=0, index)\<close>: the rows of the tensor named by a vector of
  indices.
\<close>

fun t_index_select0 :: "ten res \<Rightarrow> lten res \<Rightarrow> ten res" where
  "t_index_select0 (Inr a) (Inr ix) =
     (if length (lshape ix) \<noteq> 1 \<or> shape a = [] \<or> list_ex (\<lambda>i. hd (shape a) \<le> i) (ldata ix)
      then Inl RuntimeError
      else Inr (tgen (length (ldata ix) # tl (shape a))
                  (\<lambda>idx. elt a ((ldata ix ! hd idx) # tl idx))))"
| "t_index_select0 (Inl e) _ = Inl e"
| "t_index_select0 _ (Inl e) = Inl e"

text \<open>
  \<^verbatim>\<open>
  def index_to_one_hot(index_tensor, num_classes=10):
      index_tensor = index_tensor.long()
      return torch.eye(num_classes).index_select(dim=0, index=index_tensor)
  \<close>
\<close>

definition index_to_one_hot :: "lten res \<Rightarrow> nat \<Rightarrow> ten res" where
  "index_to_one_hot index_tensor num_classes = t_index_select0 (t_eye num_classes) index_tensor"

text \<open>
  The modules of the decoder.  \<open>nn.Linear\<close> maps the last dimension:
  \<open>y = x W\<^sup>T + b\<close> with \<open>W\<close> of shape \<open>(out, in)\<close>.
\<close>

record Linear =
  lin_weight :: ten
  lin_bias :: ten

datatype module = Lin Linear | ReLU | Sigmoid

definition new_Linear :: "nat \<Rightarrow> nat \<Rightarrow> (nat list \<Rightarrow> real) \<times> (nat list \<Rightarrow> real) \<Rightarrow> Linear" where
  "new_Linear in_features out_features init =
     \<lparr>lin_weight = tgen [out_features, in_features] (fst init),
      lin_bias = tgen [out_features] (snd init)\<rparr>"

fun linear :: "Linear \<Rightarrow> ten res \<Rightarrow> ten res" where
  "linear l (Inr x) =
     (case shape (lin_weight l) of
        [out_f, in_f] \<Rightarrow>
          if shape x = [] \<or> last (shape x) \<noteq> in_f \<or> shape (lin_bias l) \<noteq> [out_f]
          then Inl RuntimeError
          else Inr (tgen (butlast (shape x) @ [out_f])
                 (\<lambda>idx. elt (lin_bias l) [last idx]
                        + sum_list (map (\<lambda>k. elt x (butlast idx @ [k])
                                              * elt (lin_weight l) [last idx, k]) [0..<in_f])))
      | _ \<Rightarrow> Inl RuntimeError)"
| "linear l (Inl e) = Inl e"

definition sigmoid :: "real \<Rightarrow> real" where
  "sigmoid v = 1 / (1 + exp (- v))"

fun run_module :: "module \<Rightarrow> ten res \<Rightarrow> ten res" where
  "run_module (Lin l) x = linear l x"
| "run_module ReLU x = relu x"
| "run_module Sigmoid x = t_map sigmoid x"

text \<open>\<open>nn.Sequential\<close> applies its modules in order.\<close>

definition Sequential :: "module list \<Rightarrow> ten res \<Rightarrow> ten res" where
  "Sequential ms x = foldl (\<lambda>v m. run_module m v) x ms"

subsection \<open>The class\<close>

text \<open>
  \<^verbatim>\<open>
  class CapsuleNet(nn.Module):
      def __init__(self):
          super().__init__()

          self.conv1 = nn.Conv2d(
              in_channels=1, out_channels=256, kernel_size=9, stride=1)
          self.primary_capsules = CapsuleLayer(
              8, -1, 256, 32, kernel_size=9, stride=2)

          # 10 is the number of classes
          self.digit_capsules = CapsuleLayer(10, 32 * 6 * 6, 8, 16)

          self.decoder = nn.Sequential(
              nn.Linear(16 * 10, 512),
              nn.ReLU(inplace=True),
              nn.Linear(512, 1024),
              nn.ReLU(inplace=True),
              nn.Linear(1024, 784),
              nn.Sigmoid()
          )
  \<close>
  The constructor takes no argument.  The model's constructor takes the initial values
  of the parameters, which the library draws at random.
\<close>

record CapsuleNet =
  conv1 :: Conv2d
  primary_capsules :: CapsuleLayer
  digit_capsules :: CapsuleLayer
  decoder :: "module list"

record init_values =
  init_conv1 :: "(nat list \<Rightarrow> real) \<times> (nat list \<Rightarrow> real)"
  init_primary :: "nat \<Rightarrow> (nat list \<Rightarrow> real) \<times> (nat list \<Rightarrow> real)"
  init_digit :: "nat list \<Rightarrow> real"
  init_linear1 :: "(nat list \<Rightarrow> real) \<times> (nat list \<Rightarrow> real)"
  init_linear2 :: "(nat list \<Rightarrow> real) \<times> (nat list \<Rightarrow> real)"
  init_linear3 :: "(nat list \<Rightarrow> real) \<times> (nat list \<Rightarrow> real)"

definition new_CapsuleNet :: "init_values \<Rightarrow> CapsuleNet res" where
  "new_CapsuleNet iv =
     (case new_CapsuleLayer 8 (- 1) 256 32 (Some 9) (Some 2) 3 (\<lambda>idx. 0) (init_primary iv) of
        Inl e \<Rightarrow> Inl e
      | Inr primary \<Rightarrow>
          (case new_CapsuleLayer 10 (32 * 6 * 6) 8 16 None None 3 (init_digit iv)
                  (\<lambda>k. (\<lambda>idx. 0, \<lambda>idx. 0)) of
             Inl e \<Rightarrow> Inl e
           | Inr digit \<Rightarrow>
               Inr \<lparr>conv1 = new_Conv2d 1 256 9 1 (init_conv1 iv),
                    primary_capsules = primary,
                    digit_capsules = digit,
                    decoder =
                      [Lin (new_Linear (16 * 10) 512 (init_linear1 iv)),
                       ReLU,
                       Lin (new_Linear 512 1024 (init_linear2 iv)),
                       ReLU,
                       Lin (new_Linear 1024 784 (init_linear3 iv)),
                       Sigmoid]\<rparr>))"

text \<open>
  \<^verbatim>\<open>
      def forward(self, x, y=None):
          x = F.relu(self.conv1(x), inplace=True)
          x = self.primary_capsules(x)
          x = self.digit_capsules(x).squeeze().transpose(0, 1)

          classes = (x ** 2).sum(dim=-1) ** 0.5
          classes = F.softmax(classes)

          if y is None:
              # In all batches, get the most active capsule
              _, max_length_indices = classes.max(dim=1)
              y = Variable(torch.eye(10)).cuda().index_select(
                  dim=0, index=max_length_indices.data)

          reconstructions = self.decoder((x * y[:, :, None]).view(x.size(0), -1))
          return classes, reconstructions
  \<close>
  \<open>digit_caps_output\<close> is the value of \<open>self.digit_capsules(x)\<close> in the third line.
\<close>

definition digit_caps_output :: "CapsuleNet \<Rightarrow> ten res \<Rightarrow> ten res" where
  "digit_caps_output self x =
     (let x = relu (conv2d (conv1 self) x);
          x = CapsuleLayer_forward (primary_capsules self) x
      in CapsuleLayer_forward (digit_capsules self) x)"

fun pair_res :: "ten res \<Rightarrow> ten res \<Rightarrow> (ten \<times> ten) res" where
  "pair_res (Inl e) _ = Inl e"
| "pair_res (Inr a) (Inl e) = Inl e"
| "pair_res (Inr a) (Inr b) = Inr (a, b)"

definition CapsuleNet_forward :: "CapsuleNet \<Rightarrow> ten res \<Rightarrow> ten res option \<Rightarrow> (ten \<times> ten) res" where
  "CapsuleNet_forward self x y =
     (let x = relu (conv2d (conv1 self) x);
          x = CapsuleLayer_forward (primary_capsules self) x;
          x = t_transpose (t_squeeze (CapsuleLayer_forward (digit_capsules self) x)) 0 1;
          classes = t_pow_half (t_sum (t_pow x 2) (- 1) False);
          classes = F_softmax classes;
          y = (case y of
                 None \<Rightarrow> t_index_select0 (t_eye 10) (t_max_indices classes 1 False)
               | Some y \<Rightarrow> y);
          reconstructions =
            Sequential (decoder self)
              (case t_size x 0 of
                 Inl e \<Rightarrow> Inl e
               | Inr n \<Rightarrow> t_view (t_mul x (t_index y [All, All, NewAxis])) [int n, - 1])
      in pair_res classes reconstructions)"

section \<open>A small layer\<close>

text \<open>
  One output capsule routing over two input capsules, one channel in and out, every
  routing weight 1, and the default three iterations.
\<close>

definition lay3 :: CapsuleLayer where
  "lay3 = \<lparr>num_routes = 2, num_iterations = 3, num_capsules = 1,
           route_weights = Some \<lparr>shape = [1, 2, 1, 1], data = [1, 1]\<rparr>, capsules = None\<rparr>"

text \<open>
  The same layer asked for no iteration, and a layer that routes over no input capsule.
\<close>

definition lay0 :: CapsuleLayer where
  "lay0 = \<lparr>num_routes = 2, num_iterations = 0, num_capsules = 1,
           route_weights = Some \<lparr>shape = [1, 2, 1, 1], data = [1, 1]\<rparr>, capsules = None\<rparr>"

definition lay_no_routes :: CapsuleLayer where
  "lay_no_routes = \<lparr>num_routes = 0, num_iterations = 3, num_capsules = 1,
           route_weights = Some \<lparr>shape = [1, 0, 1, 1], data = []\<rparr>, capsules = None\<rparr>"

section \<open>A network with simple parameters\<close>

text \<open>
  The network the constructor builds from these initial values: every weight of the
  convolutions and of the linear layers is 0, every bias is 0 except that of the first
  primary-capsule convolution, which is 1, and every routing weight is 2304.  On any
  input each primary capsule is the squash of \<open>(1, 0, \<dots>, 0)\<close>, that is
  \<open>(1 / 2, 0, \<dots>, 0)\<close>, and each prior has all 16 components equal to 1152.
\<close>

definition iv0 :: init_values where
  "iv0 = \<lparr>init_conv1 = (\<lambda>idx. 0, \<lambda>idx. 0),
           init_primary = (\<lambda>j. (\<lambda>idx. 0, \<lambda>idx. if j = 0 then 1 else 0)),
           init_digit = (\<lambda>idx. 2304),
           init_linear1 = (\<lambda>idx. 0, \<lambda>idx. 0),
           init_linear2 = (\<lambda>idx. 0, \<lambda>idx. 0),
           init_linear3 = (\<lambda>idx. 0, \<lambda>idx. 0)\<rparr>"

definition net0 :: CapsuleNet where
  "net0 =
     \<lparr>conv1 = new_Conv2d 1 256 9 1 (\<lambda>idx. 0, \<lambda>idx. 0),
      primary_capsules =
        \<lparr>num_routes = - 1, num_iterations = 3, num_capsules = 8, route_weights = None,
         capsules = Some (map (\<lambda>j. new_Conv2d 256 32 9 2 (\<lambda>idx. 0, \<lambda>idx. if j = 0 then 1 else 0))
                              [0..<8])\<rparr>,
      digit_capsules =
        \<lparr>num_routes = 1152, num_iterations = 3, num_capsules = 10,
         route_weights = Some (tgen [10, 1152, 8, 16] (\<lambda>idx. 2304)), capsules = None\<rparr>,
      decoder =
        [Lin (new_Linear 160 512 (\<lambda>idx. 0, \<lambda>idx. 0)), ReLU,
         Lin (new_Linear 512 1024 (\<lambda>idx. 0, \<lambda>idx. 0)), ReLU,
         Lin (new_Linear 1024 784 (\<lambda>idx. 0, \<lambda>idx. 0)), Sigmoid]\<rparr>"

text \<open>A batch of \<open>n\<close> black images, and the labels "class 0" for each of them.\<close>

definition black :: "nat \<Rightarrow> ten" where
  "black n = full [n, 1, 28, 28] 0"

definition zeros_hot :: "nat \<Rightarrow> ten" where
  "zeros_hot n = tgen [n, 10] (\<lambda>idx. if idx ! 1 = 0 then 1 else 0)"

text \<open>The biases of the eight primary-capsule convolutions of \<open>net0\<close>.\<close>

definition beta :: "nat \<Rightarrow> real" where
  "beta j = (if j = 0 then 1 else 0)"

text \<open>
  What \<open>squash_vector\<close> makes of each element of a slice of \<open>Q\<close> elements all equal
  to \<open>m\<close>.
\<close>

definition squash_const :: "nat \<Rightarrow> real \<Rightarrow> real" where
  "squash_const Q m = real Q * m\<^sup>2 / (1 + real Q * m\<^sup>2) * m / sqrt (real Q * m\<^sup>2)"

section \<open>The words of the specification\<close>

text \<open>
  The topology the specification lists: a convolution from 1 to 256 channels with kernel
  9 and stride 1; 8 primary-capsule convolutions from 256 to 32 channels with kernel 9
  and stride 2; a digit-capsule layer of 10 capsules routing over \<open>32 * 6 * 6 = 1152\<close>
  input capsules, from 8 to 16 channels; a decoder of linear layers from 160 to 512 to
  1024 to 784 with a sigmoid at the end.
\<close>

definition is_conv :: "Conv2d \<Rightarrow> nat \<Rightarrow> nat \<Rightarrow> nat \<Rightarrow> nat \<Rightarrow> bool" where
  "is_conv c in_channels out_channels ksize stride =
     (shape (weight c) = [out_channels, in_channels, ksize, ksize] \<and>
      shape (bias c) = [out_channels] \<and> conv_stride c = stride)"

datatype layer_kind = Linear_layer nat nat | ReLU_layer | Sigmoid_layer | Malformed_layer

fun kind_of :: "module \<Rightarrow> layer_kind" where
  "kind_of (Lin l) =
     (case shape (lin_weight l) of
        [out_f, in_f] \<Rightarrow> if shape (lin_bias l) = [out_f] then Linear_layer in_f out_f
                         else Malformed_layer
      | _ \<Rightarrow> Malformed_layer)"
| "kind_of ReLU = ReLU_layer"
| "kind_of Sigmoid = Sigmoid_layer"

definition CapsNet_topology :: "CapsuleNet \<Rightarrow> bool" where
  "CapsNet_topology self =
     (is_conv (conv1 self) 1 256 9 1 \<and>
      num_routes (primary_capsules self) = - 1 \<and>
      (case capsules (primary_capsules self) of
         None \<Rightarrow> False
       | Some cs \<Rightarrow> length cs = 8 \<and> list_all (\<lambda>c. is_conv c 256 32 9 2) cs) \<and>
      num_capsules (digit_capsules self) = 10 \<and>
      num_routes (digit_capsules self) = 32 * 6 * 6 \<and>
      num_routes (digit_capsules self) = 1152 \<and>
      num_iterations (digit_capsules self) = 3 \<and>
      (case route_weights (digit_capsules self) of
         None \<Rightarrow> False
       | Some rw \<Rightarrow> shape rw = [10, 1152, 8, 16]) \<and>
      map kind_of (decoder self)
        = [Linear_layer 160 512, ReLU_layer, Linear_layer 512 1024, ReLU_layer,
           Linear_layer 1024 784, Sigmoid_layer])"

text \<open>
  The lengths of the digit-capsule output vectors: for sample \<open>b\<close> and class \<open>c\<close>, the
  Euclidean norm over the 16 output channels of the output \<open>d\<close> of the digit-capsule
  layer, a tensor of shape \<open>(10, n, 1, 1, 16)\<close>.
\<close>

definition capsule_length :: "ten \<Rightarrow> nat \<Rightarrow> nat \<Rightarrow> real" where
  "capsule_length d b c = sqrt (\<Sum>k<16. (elt d [c, b, 0, 0, k])\<^sup>2)"

definition capsule_lengths :: "ten \<Rightarrow> nat \<Rightarrow> ten" where
  "capsule_lengths d n = tgen [n, 10] (\<lambda>idx. capsule_length d (idx ! 0) (idx ! 1))"

text \<open>
  Routing, as the specification words it.  The coupling coefficients are the softmax of
  the logits over the routes; the output capsules are computed from the logits and the
  priors; an update adds to the logits the agreement of each prior with its output, the
  dot product over the last dimension.
\<close>

definition coupling :: "ten res \<Rightarrow> ten res" where
  "coupling logits = softmax logits 2"

definition outputs_from :: "ten res \<Rightarrow> ten res \<Rightarrow> ten res" where
  "outputs_from priors logits = t_sum (squash_vector (t_mul (coupling logits) priors) (- 1)) 2 True"

definition agreement :: "ten res \<Rightarrow> ten res \<Rightarrow> ten res" where
  "agreement priors outputs = t_sum (t_mul priors outputs) (- 1) True"

definition logits_update :: "ten res \<Rightarrow> ten res \<Rightarrow> ten res" where
  "logits_update priors logits = t_add logits (agreement priors (outputs_from priors logits))"

section \<open>The script\<close>

text \<open>
  The last cell of the notebook builds the model, the optimizer, the loss and the two data
  loaders and runs the epochs.  What the script calls but does not define is a parameter
  of the model, gathered in the record \<open>world\<close>: the initial values of the parameters,
  the samples of the two parts of MNIST, the order in which a shuffling loader yields
  them in its \<open>k\<close>-th pass, and what \<open>loss.backward()\<close> followed by \<open>optimizer.step()\<close>
  makes of the network's parameters at the \<open>k\<close>-th step.

  The state of the script is the network, the Python variables that live across
  statements, the events so far, and the exception that ended the run, if any.
\<close>

datatype event =
    Download string bool
  | Model_cuda
  | Model_train
  | Model_eval
  | Zero_grad
  | Forward
  | Compute_loss
  | Backward
  | Optimizer_step
  | Print_iter nat
  | Print_test

text \<open>The events that touch the file system.\<close>

fun file_system_effect :: "event \<Rightarrow> bool" where
  "file_system_effect (Download dir train) = True"
| "file_system_effect e = False"

type_synonym sample = "ten \<times> nat"

record world =
  init :: init_values
  mnist_train :: "sample list"
  mnist_test :: "sample list"
  shuffle_train :: "nat \<Rightarrow> sample list \<Rightarrow> sample list"
  shuffle_test :: "nat \<Rightarrow> sample list \<Rightarrow> sample list"
  adam_update :: "nat \<Rightarrow> CapsuleNet \<Rightarrow> CapsuleNet"

text \<open>A Python number or a tensor, for the variable \<open>test_loss\<close>.\<close>

datatype pyval = Num real | Ten "ten res"

record script_state =
  model :: CapsuleNet
  steps :: nat
  training :: bool
  reconstructions_var :: "ten res option"
  correct_var :: "real option"
  test_loss_var :: "pyval option"
  trace :: "event list"
  exc :: "err option"

definition emit :: "event \<Rightarrow> script_state \<Rightarrow> script_state" where
  "emit e st = st\<lparr>trace := trace st @ [e]\<rparr>"

definition throw :: "err \<Rightarrow> script_state \<Rightarrow> script_state" where
  "throw e st = st\<lparr>exc := Some e\<rparr>"

text \<open>The exception a value stands for, if it stands for one.\<close>

fun fails :: "'a res \<Rightarrow> err option" where
  "fails (Inl e) = (if raises e then Some e else None)"
| "fails (Inr v) = None"

fun map_res :: "('a \<Rightarrow> 'b) \<Rightarrow> 'a res \<Rightarrow> 'b res" where
  "map_res f (Inl e) = Inl e"
| "map_res f (Inr v) = Inr (f v)"

subsection \<open>The data loaders\<close>

text \<open>
  \<open>DataLoader(dataset, batch_size=8, shuffle=True)\<close>: each pass over the loader yields
  the samples in a new order, eight at a time, the last batch with what is left.  A batch
  is the stack of its images and the vector of its labels; stacking needs images of one
  shape.
\<close>

function chunks :: "nat \<Rightarrow> 'a list \<Rightarrow> 'a list list" where
  "chunks n xs = (if n = 0 \<or> xs = [] then [] else take n xs # chunks n (drop n xs))"
  by pat_completeness auto
termination
  by (relation "measure (\<lambda>(n, xs). length xs)") auto

definition collate :: "sample list \<Rightarrow> ten res \<times> lten" where
  "collate samples =
     ((if list_all (\<lambda>s. shape (fst s) = shape (fst (hd samples))) samples
       then Inr \<lparr>shape = length samples # shape (fst (hd samples)),
                 data = concat (map (\<lambda>s. data (fst s)) samples)\<rparr>
       else Inl RuntimeError),
      \<lparr>lshape = [length samples], ldata = map snd samples\<rparr>)"

definition train_loader :: "world \<Rightarrow> nat \<Rightarrow> (ten res \<times> lten) list" where
  "train_loader w k = map collate (chunks 8 (shuffle_train w k (mnist_train w)))"

definition test_loader :: "world \<Rightarrow> nat \<Rightarrow> (ten res \<times> lten) list" where
  "test_loader w k = map collate (chunks 8 (shuffle_test w k (mnist_test w)))"

subsection \<open>Library operations of the test loop\<close>

text \<open>\<open>tensor.view_as(other)\<close>: the tensor viewed with the shape of \<open>other\<close>.\<close>

fun t_view_as :: "ten res \<Rightarrow> lten res \<Rightarrow> ten res" where
  "t_view_as (Inr a) (Inr b) =
     (if prod_list (shape a) = prod_list (lshape b)
      then Inr \<lparr>shape = lshape b, data = data a\<rparr> else Inl RuntimeError)"
| "t_view_as (Inl e) _ = Inl e"
| "t_view_as _ (Inl e) = Inl e"

text \<open>\<open>pred.eq(t).cpu().sum()\<close>: the number of positions at which index and value agree.\<close>

fun count_eq :: "lten res \<Rightarrow> ten res \<Rightarrow> real res" where
  "count_eq (Inr p) (Inr t) =
     (if lshape p = shape t
      then Inr (real (length (filter (\<lambda>(i, v). real i = v) (zip (ldata p) (data t)))))
      else Inl RuntimeError)"
| "count_eq (Inl e) _ = Inl e"
| "count_eq _ (Inl e) = Inl e"

fun py_add :: "pyval \<Rightarrow> ten res \<Rightarrow> pyval" where
  "py_add (Num v) t = Ten (t_adds v t)"
| "py_add (Ten a) t = Ten (t_add a t)"

subsection \<open>The loops\<close>

text \<open>
  \<^verbatim>\<open>
  for e in range(10):
      # Training
      model.train()
      for idx, (img, target) in enumerate(tqdm(train_loader)):
          img = Variable(img)
          target = Variable(index_to_one_hot(target))

          if CUDA:
              img = img.cuda()
              target = target.cuda()

          optimizer.zero_grad()

          classes, reconstructions = model(img, target)

          loss = margin_loss(img, target, classes, reconstructions)
          loss.backward()

          optimizer.step()

          print('Iter: {}, Loss: {:.4f}'.format(idx, loss.data[0]))

          # Testing
          correct = 0
          test_loss = 0

          model.eval()
      for idx, (img, target) in enumerate(test_loader):
          img = Variable(img)
          target = Variable(index_to_one_hot(target))

          if CUDA:
              img = img.cuda()
              target = target.cuda()

          classes, recontructions = model(img, target)

          test_loss += margin_loss(img, target, classes, reconstructions)

          # Get index of the max log-probability
          pred = classes.data.max(1, keepdim=True)[1]
          correct += pred.eq(target.data.view_as(pred)).cpu().sum()

      test_loss /= len(test_loader.dataset)
      print('Test Set: Avg Loss: {:.4f}/{}, Accuracy: {}/{}'.format(
          test_loss.data[0], correct, len(test_loader.dataset, 100. * correct / len(test_loader.dataset))))
  \<close>
  The three statements under \<open># Testing\<close> are indented into the body of the training
  loop.  The test loop assigns \<open>recontructions\<close>, which nothing reads, and passes
  \<open>reconstructions\<close>, the variable the last training batch left.  The last statement
  calls \<open>len\<close> with two arguments.

  Moving the model and the tensors to the GPU changes no value; of these calls the model
  keeps the event of \<open>model.cuda()\<close>.  A value that is not finite carries no shape in
  this model, so where the class scores are not finite the test step goes on without
  counting; the library would still compare shapes.
\<close>

definition train_step :: "world \<Rightarrow> script_state \<Rightarrow> nat \<Rightarrow> ten res \<times> lten \<Rightarrow> script_state" where
  "train_step w st idx batch =
     (let img = fst batch;
          target = index_to_one_hot (Inr (snd batch)) 10
      in case fails img of Some e \<Rightarrow> throw e st | None \<Rightarrow>
         case fails target of Some e \<Rightarrow> throw e st | None \<Rightarrow>
         let st = emit Zero_grad st;
             out = CapsuleNet_forward (model st) img (Some target)
         in case fails out of Some e \<Rightarrow> throw e st | None \<Rightarrow>
            let st = emit Forward st;
                classes = map_res fst out;
                reconstructions = map_res snd out;
                st = st\<lparr>reconstructions_var := Some reconstructions\<rparr>;
                loss = MarginLoss_forward img target classes reconstructions
            in case fails loss of Some e \<Rightarrow> throw e st | None \<Rightarrow>
               let st = emit Compute_loss st;
                   st = emit Backward st;
                   st = emit Optimizer_step
                          (st\<lparr>model := adam_update w (steps st) (model st), steps := Suc (steps st)\<rparr>);
                   st = emit (Print_iter idx) st;
                   st = st\<lparr>correct_var := Some 0, test_loss_var := Some (Num 0)\<rparr>
               in emit Model_eval (st\<lparr>training := False\<rparr>))"

definition test_step :: "world \<Rightarrow> script_state \<Rightarrow> nat \<Rightarrow> ten res \<times> lten \<Rightarrow> script_state" where
  "test_step w st idx batch =
     (let img = fst batch;
          target = index_to_one_hot (Inr (snd batch)) 10
      in case fails img of Some e \<Rightarrow> throw e st | None \<Rightarrow>
         case fails target of Some e \<Rightarrow> throw e st | None \<Rightarrow>
         let out = CapsuleNet_forward (model st) img (Some target)
         in case fails out of Some e \<Rightarrow> throw e st | None \<Rightarrow>
            let st = emit Forward st;
                classes = map_res fst out
            in case test_loss_var st of None \<Rightarrow> throw NameError st | Some test_loss \<Rightarrow>
               case reconstructions_var st of None \<Rightarrow> throw NameError st | Some reconstructions \<Rightarrow>
               let loss = MarginLoss_forward img target classes reconstructions
               in case fails loss of Some e \<Rightarrow> throw e st | None \<Rightarrow>
                  let st = emit Compute_loss (st\<lparr>test_loss_var := Some (py_add test_loss loss)\<rparr>);
                      pred = t_max_indices classes 1 True;
                      matches = count_eq pred (t_view_as target pred)
                  in case fails matches of Some e \<Rightarrow> throw e st | None \<Rightarrow>
                     (case (correct_var st, matches) of
                        (Some c, Inr m) \<Rightarrow> st\<lparr>correct_var := Some (c + m)\<rparr>
                      | (None, _) \<Rightarrow> throw NameError st
                      | (Some c, Inl e) \<Rightarrow> st))"

text \<open>A \<open>for\<close> loop over an enumerated list; an exception ends it.\<close>

fun for_each ::
  "(script_state \<Rightarrow> nat \<Rightarrow> 'b \<Rightarrow> script_state) \<Rightarrow> script_state \<Rightarrow> nat \<Rightarrow> 'b list \<Rightarrow> script_state" where
  "for_each body st i [] = st"
| "for_each body st i (b # bs) =
     (let st' = body st i b in
      if exc st' \<noteq> None then st' else for_each body st' (Suc i) bs)"

text \<open>
  The two statements after the test loop.  The division takes a number or a tensor.  The
  arguments of \<open>format\<close> are evaluated in order: \<open>test_loss.data[0]\<close>, which a Python
  number does not have, then \<open>correct\<close>, then the call of \<open>len\<close> with two arguments,
  which raises \<open>TypeError\<close>.  So no path through these statements reaches \<open>print\<close>.
\<close>

definition report :: "world \<Rightarrow> script_state \<Rightarrow> script_state" where
  "report w st =
     (case test_loss_var st of
        None \<Rightarrow> throw NameError st
      | Some (Num v) \<Rightarrow>
          if length (mnist_test w) = 0 then throw ZeroDivisionError st
          else throw AttributeError (st\<lparr>test_loss_var := Some (Num (v / real (length (mnist_test w))))\<rparr>)
      | Some (Ten a) \<Rightarrow>
          (case fails (t_divs a (real (length (mnist_test w)))) of
             Some e \<Rightarrow> throw e st
           | None \<Rightarrow>
               throw TypeError
                 (st\<lparr>test_loss_var := Some (Ten (t_divs a (real (length (mnist_test w)))))\<rparr>)))"

definition epoch :: "world \<Rightarrow> script_state \<Rightarrow> nat \<Rightarrow> unit \<Rightarrow> script_state" where
  "epoch w st e u =
     (let st = emit Model_train (st\<lparr>training := True\<rparr>);
          st = for_each (train_step w) st 0 (train_loader w e)
      in if exc st \<noteq> None then st
         else (let st = for_each (test_step w) st 0 (test_loader w e)
               in if exc st \<noteq> None then st else report w st))"

text \<open>
  \<^verbatim>\<open>
  # Globals
  CUDA = True
  EPOCH = 10

  # Model
  model = CapsuleNet()

  if CUDA:
      model.cuda()

  optimizer = optim.Adam(model.parameters())

  margin_loss = MarginLoss()

  train_loader = torch.utils.data.DataLoader(
      MNIST(root='/tmp', download=True, train=True,
              transform=transforms.ToTensor()),
      batch_size=8, shuffle=True)

  test_loader = torch.utils.data.DataLoader(
      MNIST(root='/tmp', download=True, train=False,
              transform=transforms.ToTensor()),
      batch_size=8, shuffle=True)
  \<close>
\<close>

definition script :: "world \<Rightarrow> script_state res" where
  "script w =
     (case new_CapsuleNet (init w) of
        Inl e \<Rightarrow> Inl e
      | Inr net \<Rightarrow>
          (let st = \<lparr>model = net, steps = 0, training = True, reconstructions_var = None,
                     correct_var = None, test_loss_var = None, trace = [], exc = None\<rparr>;
               st = emit Model_cuda st;
               st = emit (Download ''/tmp'' True) st;
               st = emit (Download ''/tmp'' False) st
           in Inr (for_each (epoch w) st 0 (replicate 10 ()))))"

subsection \<open>Effects on the file system\<close>

text \<open>
  From one state to a later one nothing touched the file system: the later trace is the
  earlier one followed by events none of which is a file-system effect.
\<close>

definition no_file_effect :: "script_state \<Rightarrow> script_state \<Rightarrow> bool" where
  "no_file_effect st st' =
     (take (length (trace st)) (trace st') = trace st \<and>
      filter file_system_effect (drop (length (trace st)) (trace st')) = [])"

section \<open>A run of the script\<close>

text \<open>
  A world of black images: the 60000 training samples and the 10000 test samples are all
  the black image with label 0, the loaders yield them in order, the parameters start as
  those of \<open>net0\<close>, and a step of the optimizer leaves them as they are.
\<close>

definition w0 :: world where
  "w0 = \<lparr>init = iv0,
         mnist_train = replicate 60000 (full [1, 28, 28] 0, 0),
         mnist_test = replicate 10000 (full [1, 28, 28] 0, 0),
         shuffle_train = (\<lambda>k xs. xs),
         shuffle_test = (\<lambda>k xs. xs),
         adam_update = (\<lambda>k net. net)\<rparr>"

text \<open>A batch of eight such samples, and the events of a training batch.\<close>

definition batch8 :: "ten res \<times> lten" where
  "batch8 = (Inr (black 8), \<lparr>lshape = [8], ldata = replicate 8 0\<rparr>)"

definition train_events :: "nat \<Rightarrow> event list" where
  "train_events idx =
     [Zero_grad, Forward, Compute_loss, Backward, Optimizer_step, Print_iter idx, Model_eval]"

text \<open>The loss of such a batch on \<open>net0\<close>.\<close>

definition loss8 :: ten where
  "loss8 = \<lparr>shape = [1], data = [369 / 500]\<rparr>"

section \<open>Basic facts about indices\<close>

lemma ravel_less: "valid s idx \<Longrightarrow> ravel s idx < prod_list s"
proof (induction s arbitrary: idx)
  case Nil
  then show ?case by (simp add: valid_def)
next
  case (Cons n ns)
  from Cons.prems obtain i js where idx: "idx = i # js" and i: "i < n" and js: "valid ns js"
    by (auto simp: valid_def list_all2_Cons2)
  have r: "ravel ns js < prod_list ns" using Cons.IH js by simp
  have "i * prod_list ns + ravel ns js < i * prod_list ns + prod_list ns" using r by simp
  also have "\<dots> = Suc i * prod_list ns" by simp
  also have "\<dots> \<le> n * prod_list ns" using i by (intro mult_le_mono1) simp
  finally show ?case by (simp add: idx)
qed

lemma unravel_ravel: "valid s idx \<Longrightarrow> unravel s (ravel s idx) = idx"
proof (induction s arbitrary: idx)
  case Nil
  then show ?case by (simp add: valid_def)
next
  case (Cons n ns)
  from Cons.prems obtain i js where idx: "idx = i # js" and i: "i < n" and js: "valid ns js"
    by (auto simp: valid_def list_all2_Cons2)
  have r: "ravel ns js < prod_list ns" using ravel_less js by simp
  show ?case using Cons.IH[OF js] r by (simp add: idx)
qed

lemma valid_unravel: "k < prod_list s \<Longrightarrow> valid s (unravel s k)"
proof (induction s arbitrary: k)
  case Nil
  then show ?case by (simp add: valid_def)
next
  case (Cons n ns)
  have pos: "0 < prod_list ns" using Cons.prems by (cases "prod_list ns = 0") auto
  have "k div prod_list ns < n"
    using Cons.prems pos by (simp add: less_mult_imp_div_less mult.commute)
  moreover have "valid ns (unravel ns (k mod prod_list ns))"
    using Cons.IH pos by simp
  ultimately show ?case by (simp add: valid_def)
qed

lemma ravel_unravel: "k < prod_list s \<Longrightarrow> ravel s (unravel s k) = k"
proof (induction s arbitrary: k)
  case Nil
  then show ?case by simp
next
  case (Cons n ns)
  have pos: "0 < prod_list ns" using Cons.prems by (cases "prod_list ns = 0") auto
  show ?case using Cons.IH[of "k mod prod_list ns"] pos by simp
qed

lemma valid_length: "valid s idx \<Longrightarrow> length idx = length s"
  by (simp add: valid_def list_all2_lengthD)

lemma valid_nth: "valid s idx \<Longrightarrow> i < length s \<Longrightarrow> idx ! i < s ! i"
  by (simp add: valid_def list_all2_conv_all_nth)

lemma valid_iff: "valid s idx \<longleftrightarrow> length idx = length s \<and> (\<forall>i<length s. idx ! i < s ! i)"
  by (auto simp: valid_def list_all2_conv_all_nth)

lemma wf_tgen: "wf_ten (tgen s f)"
  by (simp add: wf_ten_def tgen_def)

lemma shape_tgen: "shape (tgen s f) = s"
  by (simp add: tgen_def)

lemma elt_tgen: "valid s idx \<Longrightarrow> elt (tgen s f) idx = f idx"
  using ravel_less[of s idx] by (simp add: elt_def tgen_def unravel_ravel)

lemma data_tgen_nth: "k < prod_list s \<Longrightarrow> data (tgen s f) ! k = f (unravel s k)"
  by (simp add: tgen_def)

lemma ten_eqI:
  assumes "wf_ten a" "wf_ten b" "shape a = shape b"
    and "\<And>idx. valid (shape a) idx \<Longrightarrow> elt a idx = elt b idx"
  shows "a = b"
proof -
  have len: "length (data a) = length (data b)" using assms(1-3) by (simp add: wf_ten_def)
  have "data a ! k = data b ! k" if "k < length (data a)" for k
  proof -
    have k: "k < prod_list (shape a)" using that assms(1) by (simp add: wf_ten_def)
    have "elt a (unravel (shape a) k) = elt b (unravel (shape a) k)"
      using assms(4) valid_unravel[OF k] by simp
    then show ?thesis using k assms(3) by (simp add: elt_def ravel_unravel)
  qed
  then have "data a = data b" using len by (simp add: list_eq_iff_nth_eq)
  then show ?thesis using assms(3) by simp
qed

lemma unravel_image: "unravel s ` {..<prod_list s} = {idx. valid s idx}"
proof (intro set_eqI iffI)
  fix idx assume "idx \<in> unravel s ` {..<prod_list s}"
  then show "idx \<in> {idx. valid s idx}" using valid_unravel by auto
next
  fix idx assume "idx \<in> {idx. valid s idx}"
  then have v: "valid s idx" by simp
  have "idx = unravel s (ravel s idx)" using unravel_ravel[OF v] by simp
  then show "idx \<in> unravel s ` {..<prod_list s}" using ravel_less[OF v] by blast
qed

lemma data_conv: "wf_ten a \<Longrightarrow> data a = map (\<lambda>k. elt a (unravel (shape a) k)) [0..<prod_list (shape a)]"
  by (auto simp: wf_ten_def elt_def ravel_unravel intro!: nth_equalityI)

lemma ten_conv_tgen: "wf_ten a \<Longrightarrow> a = tgen (shape a) (elt a)"
  by (rule ten_eqI) (simp_all add: wf_tgen shape_tgen elt_tgen)

lemma set_data: "wf_ten a \<Longrightarrow> set (data a) = elt a ` {idx. valid (shape a) idx}"
proof -
  assume w: "wf_ten a"
  have "set (data a) = (\<lambda>k. elt a (unravel (shape a) k)) ` {..<prod_list (shape a)}"
    by (subst data_conv[OF w]) (simp add: atLeast0LessThan)
  also have "\<dots> = elt a ` (unravel (shape a) ` {..<prod_list (shape a)})" by (simp add: image_image)
  finally show ?thesis by (simp add: unravel_image)
qed

lemma tgen_cong: "(\<And>idx. valid s idx \<Longrightarrow> f idx = g idx) \<Longrightarrow> tgen s f = tgen s g"
  by (simp add: tgen_def valid_unravel)

lemma wf_tmap: "wf_ten a \<Longrightarrow> wf_ten (tmap f a)"
  by (simp add: wf_ten_def tmap_def)

lemma shape_tmap: "shape (tmap f a) = shape a"
  by (simp add: tmap_def)

lemma elt_tmap: "wf_ten a \<Longrightarrow> valid (shape a) idx \<Longrightarrow> elt (tmap f a) idx = f (elt a idx)"
  using ravel_less[of "shape a" idx] by (simp add: elt_def tmap_def wf_ten_def)

lemma bshape_rev_left: "list_all2 (\<lambda>x y. x = y \<or> x = 1) a b \<Longrightarrow> bshape_rev a b = Some b"
  by (induction a b rule: list_all2_induct) auto

lemma bshape_rev_right: "list_all2 (\<lambda>x y. x = y \<or> y = 1) a b \<Longrightarrow> bshape_rev a b = Some a"
  by (induction a b rule: list_all2_induct) auto

lemma bshape_left: "list_all2 (\<lambda>x y. x = y \<or> x = 1) a b \<Longrightarrow> bshape a b = Some b"
  by (simp add: bshape_def bshape_rev_left)

lemma bshape_right: "list_all2 (\<lambda>x y. x = y \<or> y = 1) a b \<Longrightarrow> bshape a b = Some a"
  by (simp add: bshape_def bshape_rev_right)

lemma bshape_same: "bshape s s = Some s"
  by (rule bshape_left) (simp add: list_all2_same)

lemma nth_upd_if: "xs[d := x] ! i = (if i = d \<and> d < length xs then x else xs ! i)"
  by (cases "i = d") (auto simp: nth_list_update_neq list_update_beyond)

lemma bshape_upd_left: "bshape (s[d := 1]) s = Some s"
  by (rule bshape_left) (auto simp: list_all2_conv_all_nth nth_upd_if)

lemma bshape_upd_right: "bshape s (s[d := 1]) = Some s"
  by (rule bshape_right) (auto simp: list_all2_conv_all_nth nth_upd_if)

lemma bidx_same: "valid s idx \<Longrightarrow> bidx s idx = idx"
  by (auto simp: bidx_def valid_iff intro!: nth_equalityI)

lemma bidx_upd: "valid s idx \<Longrightarrow> bidx (s[d := 1]) idx = idx[d := 0]"
  by (auto simp: bidx_def valid_iff nth_upd_if intro!: nth_equalityI)

lemma valid_upd: "valid s idx \<Longrightarrow> valid (s[d := 1]) (idx[d := 0])"
  by (auto simp: valid_iff nth_upd_if)

lemma valid_upd_back: "valid (s[d := 1]) idx \<Longrightarrow> k < s ! d \<Longrightarrow> valid s (idx[d := k])"
  by (auto simp: valid_iff nth_upd_if)

lemma norm_dim_less: "norm_dim r dm = Some d \<Longrightarrow> d < r"
  by (auto simp: norm_dim_def split: if_splits)

lemma set_zip_tgen:
  "set (zip (data (tgen s f)) (data (tgen s g))) = (\<lambda>idx. (f idx, g idx)) ` {idx. valid s idx}"
proof -
  have "zip (data (tgen s f)) (data (tgen s g))
        = map (\<lambda>k. (f (unravel s k), g (unravel s k))) [0..<prod_list s]"
    by (simp add: tgen_def zip_map_map zip_same_conv_map)
  then have "set (zip (data (tgen s f)) (data (tgen s g)))
        = (\<lambda>idx. (f idx, g idx)) ` (unravel s ` {..<prod_list s})"
    by (simp add: image_image atLeast0LessThan)
  then show ?thesis by (simp add: unravel_image)
qed

lemma set_data_tgen: "set (data (tgen s f)) = f ` {idx. valid s idx}"
proof -
  have "set (data (tgen s f)) = f ` (unravel s ` {..<prod_list s})"
    by (simp add: tgen_def image_image atLeast0LessThan)
  then show ?thesis by (simp add: unravel_image)
qed

lemma t_div_Inr:
  assumes "bshape (shape a) (shape b) = Some s"
    and "\<And>idx. valid s idx \<Longrightarrow> elt b (bidx (shape b) idx) \<noteq> 0"
  shows "t_div (Inr a) (Inr b)
         = Inr (tgen s (\<lambda>idx. elt a (bidx (shape a) idx) / elt b (bidx (shape b) idx)))"
proof -
  have 1: "\<not> list_ex (\<lambda>(x, y). y = 0 \<and> x = 0)
            (zip (data (tgen s (\<lambda>idx. elt a (bidx (shape a) idx))))
                 (data (tgen s (\<lambda>idx. elt b (bidx (shape b) idx)))))"
    using assms(2) by (auto simp: list_ex_iff set_zip_tgen)
  have 2: "\<not> list_ex (\<lambda>y. y = 0) (data (tgen s (\<lambda>idx. elt b (bidx (shape b) idx))))"
    using assms(2) by (auto simp: list_ex_iff set_data_tgen)
  have 3: "tgen s (\<lambda>idx. elt (tgen s (\<lambda>idx. elt a (bidx (shape a) idx))) idx /
                          elt (tgen s (\<lambda>idx. elt b (bidx (shape b) idx))) idx)
         = tgen s (\<lambda>idx. elt a (bidx (shape a) idx) / elt b (bidx (shape b) idx))"
    by (rule tgen_cong) (simp add: elt_tgen)
  show ?thesis using assms(1) 1 2 3 by (simp add: Let_def)
qed

lemma t_div_NaN:
  assumes "bshape (shape a) (shape b) = Some s"
    and "valid s idx" "elt a (bidx (shape a) idx) = 0" "elt b (bidx (shape b) idx) = 0"
  shows "t_div (Inr a) (Inr b) = Inl NaN"
proof -
  have "list_ex (\<lambda>(x, y). y = 0 \<and> x = 0)
            (zip (data (tgen s (\<lambda>idx. elt a (bidx (shape a) idx))))
                 (data (tgen s (\<lambda>idx. elt b (bidx (shape b) idx)))))"
    unfolding list_ex_iff set_zip_tgen using assms(2-4) by auto
  then show ?thesis using assms(1) by (simp add: Let_def)
qed

lemma t_sqrt_Inr:
  assumes "wf_ten a" "\<And>idx. valid (shape a) idx \<Longrightarrow> 0 \<le> elt a idx"
  shows "t_sqrt (Inr a) = Inr (tmap sqrt a)"
proof -
  have "\<not> list_ex (\<lambda>x. x < 0) (data a)"
    using assms(2) by (auto simp: list_ex_iff set_data[OF assms(1)] not_less)
  then show ?thesis by simp
qed

lemma sum_list_upt: "sum_list (map f [0..<n]) = (\<Sum>k<n. f k)"
  by (simp add: interv_sum_list_conv_sum_set_nat atLeast0LessThan)

lemma sqnorm_nonneg: "0 \<le> sqnorm t d idx"
  by (simp add: sqnorm_def sum_nonneg)

lemma sqnorm_upd: "sqnorm t d (idx[d := j]) = sqnorm t d idx"
  by (simp add: sqnorm_def)

lemma squared_norm_eq:
  assumes "wf_ten t" "norm_dim (length (shape t)) dm = Some d"
  shows "t_sum (t_pow (Inr t) 2) dm True = Inr (tgen ((shape t)[d := 1]) (sqnorm t d))"
proof -
  have "tgen ((shape t)[d := 1])
          (\<lambda>idx. sum_list (map (\<lambda>k. elt (tmap (\<lambda>x. x ^ 2) t) (idx[d := k])) [0..<shape t ! d]))
        = tgen ((shape t)[d := 1]) (sqnorm t d)"
  proof (rule tgen_cong)
    fix idx assume v: "valid ((shape t)[d := 1]) idx"
    have "elt (tmap (\<lambda>x. x ^ 2) t) (idx[d := k]) = (elt t (idx[d := k]))\<^sup>2" if "k < shape t ! d" for k
      using elt_tmap[OF assms(1) valid_upd_back[OF v that]] by simp
    then show "sum_list (map (\<lambda>k. elt (tmap (\<lambda>x. x ^ 2) t) (idx[d := k])) [0..<shape t ! d])
               = sqnorm t d idx"
      by (simp add: sum_list_upt sqnorm_def)
  qed
  then show ?thesis using assms(2) by (simp add: t_pow_def shape_tmap)
qed

lemma squash_vector_unfold:
  assumes w: "wf_ten t" and nd: "norm_dim (length (shape t)) dm = Some d"
  shows "squash_vector (Inr t) dm
         = t_div (Inr (tgen (shape t) (\<lambda>idx. sqnorm t d idx / (1 + sqnorm t d idx) * elt t idx)))
                 (Inr (tmap sqrt (tgen ((shape t)[d := 1]) (sqnorm t d))))"
proof -
  let ?s = "shape t" and ?s1 = "(shape t)[d := 1]" and ?n = "sqnorm t d"
  let ?SN = "tgen ?s1 ?n"
  let ?D = "tmap (\<lambda>x. 1 + x) ?SN"
  have sn: "t_sum (t_pow (Inr t) 2) dm True = Inr ?SN" by (rule squared_norm_eq[OF w nd])
  have adds: "t_adds 1 (Inr ?SN) = Inr ?D" by (simp add: t_adds_def)
  let ?SC = "tgen ?s1 (\<lambda>idx. ?n idx / (1 + ?n idx))"
  have scale: "t_div (Inr ?SN) (Inr ?D) = Inr ?SC"
  proof -
    have b: "bshape (shape ?SN) (shape ?D) = Some ?s1"
      by (simp add: shape_tmap shape_tgen bshape_same)
    have e: "elt ?D (bidx (shape ?D) idx) = 1 + ?n idx" if "valid ?s1 idx" for idx
      using that by (simp add: shape_tmap shape_tgen bidx_same elt_tmap wf_tgen elt_tgen)
    have nz: "elt ?D (bidx (shape ?D) idx) \<noteq> 0" if "valid ?s1 idx" for idx
      using e[OF that] sqnorm_nonneg[of t d idx] by simp
    have "t_div (Inr ?SN) (Inr ?D)
          = Inr (tgen ?s1 (\<lambda>idx. elt ?SN (bidx (shape ?SN) idx) / elt ?D (bidx (shape ?D) idx)))"
      by (rule t_div_Inr[OF b nz])
    also have "tgen ?s1 (\<lambda>idx. elt ?SN (bidx (shape ?SN) idx) / elt ?D (bidx (shape ?D) idx))
               = ?SC"
    proof (rule tgen_cong)
      fix idx assume v: "valid ?s1 idx"
      have "elt ?SN (bidx (shape ?SN) idx) = ?n idx"
        using v by (simp add: shape_tgen bidx_same elt_tgen)
      then show "elt ?SN (bidx (shape ?SN) idx) / elt ?D (bidx (shape ?D) idx)
                 = ?n idx / (1 + ?n idx)"
        using e[OF v] by simp
    qed
    finally show ?thesis .
  qed
  let ?M = "tgen ?s (\<lambda>idx. ?n idx / (1 + ?n idx) * elt t idx)"
  have mul: "t_mul (Inr ?SC) (Inr t) = Inr ?M"
  proof -
    have "tgen ?s (\<lambda>idx. elt ?SC (bidx (shape ?SC) idx) * elt t (bidx ?s idx)) = ?M"
      by (rule tgen_cong)
         (simp add: shape_tgen bidx_same bidx_upd elt_tgen valid_upd sqnorm_upd del: One_nat_def)
    then show ?thesis by (simp add: t_mul_def shape_tgen bshape_upd_left del: One_nat_def)
  qed
  have sq: "t_sqrt (Inr ?SN) = Inr (tmap sqrt ?SN)"
    by (rule t_sqrt_Inr) (simp_all add: wf_tgen shape_tgen elt_tgen sqnorm_nonneg)
  show ?thesis
    unfolding squash_vector_def Let_def sn adds scale mul sq ..
qed

lemma squash_den:
  "valid (shape t) idx \<Longrightarrow>
   elt (tmap sqrt (tgen ((shape t)[d := 1]) (sqnorm t d)))
       (bidx (shape (tmap sqrt (tgen ((shape t)[d := 1]) (sqnorm t d)))) idx)
   = sqrt (sqnorm t d idx)"
  by (simp add: shape_tmap shape_tgen bidx_upd elt_tmap wf_tgen elt_tgen valid_upd sqnorm_upd
        del: One_nat_def)

lemma squash_num:
  "valid (shape t) idx \<Longrightarrow>
   elt (tgen (shape t) (\<lambda>idx. sqnorm t d idx / (1 + sqnorm t d idx) * elt t idx))
       (bidx (shape (tgen (shape t) (\<lambda>idx. sqnorm t d idx / (1 + sqnorm t d idx) * elt t idx))) idx)
   = sqnorm t d idx / (1 + sqnorm t d idx) * elt t idx"
  by (simp add: shape_tgen bidx_same elt_tgen)

lemma squash_vector_eq:
  assumes w: "wf_ten t" and nd: "norm_dim (length (shape t)) dm = Some d"
    and pos: "\<And>idx. valid (shape t) idx \<Longrightarrow> 0 < sqnorm t d idx"
  shows "squash_vector (Inr t) dm
         = Inr (tgen (shape t)
                 (\<lambda>idx. sqnorm t d idx / (1 + sqnorm t d idx) * elt t idx / sqrt (sqnorm t d idx)))"
proof -
  let ?s = "shape t" and ?n = "sqnorm t d"
  let ?M = "tgen ?s (\<lambda>idx. ?n idx / (1 + ?n idx) * elt t idx)"
  let ?R = "tmap sqrt (tgen (?s[d := 1]) ?n)"
  have b: "bshape (shape ?M) (shape ?R) = Some ?s"
    by (simp add: shape_tmap shape_tgen bshape_upd_right del: One_nat_def)
  have nz: "elt ?R (bidx (shape ?R) idx) \<noteq> 0" if "valid ?s idx" for idx
    using squash_den[OF that, of d] pos[OF that] by simp
  have "t_div (Inr ?M) (Inr ?R)
        = Inr (tgen ?s (\<lambda>idx. elt ?M (bidx (shape ?M) idx) / elt ?R (bidx (shape ?R) idx)))"
    by (rule t_div_Inr[OF b nz])
  also have "tgen ?s (\<lambda>idx. elt ?M (bidx (shape ?M) idx) / elt ?R (bidx (shape ?R) idx))
        = tgen ?s (\<lambda>idx. ?n idx / (1 + ?n idx) * elt t idx / sqrt (?n idx))"
  proof (rule tgen_cong)
    fix idx assume v: "valid ?s idx"
    show "elt ?M (bidx (shape ?M) idx) / elt ?R (bidx (shape ?R) idx)
          = ?n idx / (1 + ?n idx) * elt t idx / sqrt (?n idx)"
      unfolding squash_den[OF v] squash_num[OF v] ..
  qed
  finally show ?thesis unfolding squash_vector_unfold[OF w nd] .
qed

lemma squash_vector_zero:
  assumes w: "wf_ten t" and nd: "norm_dim (length (shape t)) dm = Some d"
    and v: "valid (shape t) idx" and z: "sqnorm t d idx = 0"
  shows "squash_vector (Inr t) dm = Inl NaN"
proof -
  let ?s = "shape t" and ?n = "sqnorm t d"
  let ?M = "tgen ?s (\<lambda>idx. ?n idx / (1 + ?n idx) * elt t idx)"
  let ?R = "tmap sqrt (tgen (?s[d := 1]) ?n)"
  have "t_div (Inr ?M) (Inr ?R) = Inl NaN"
  proof (rule t_div_NaN[where idx = idx and s = ?s])
    show "bshape (shape ?M) (shape ?R) = Some ?s"
      by (simp add: shape_tmap shape_tgen bshape_upd_right del: One_nat_def)
    show "valid ?s idx" by (rule v)
    show "elt ?M (bidx (shape ?M) idx) = 0"
      unfolding squash_num[OF v] using z by simp
    show "elt ?R (bidx (shape ?R) idx) = 0"
      unfolding squash_den[OF v] using z by simp
  qed
  then show ?thesis unfolding squash_vector_unfold[OF w nd] .
qed

lemma valid_upd_k: "valid s idx \<Longrightarrow> k < s ! d \<Longrightarrow> valid s (idx[d := k])"
  by (auto simp: valid_iff nth_upd_if)

section \<open>Facts about the loss\<close>

lemma t_bin_same:
  assumes "shape a = shape b"
  shows "t_bin f (Inr a) (Inr b) = Inr (tgen (shape a) (\<lambda>idx. f (elt a idx) (elt b idx)))"
proof -
  have "tgen (shape a) (\<lambda>idx. f (elt a (bidx (shape a) idx)) (elt b (bidx (shape b) idx)))
        = tgen (shape a) (\<lambda>idx. f (elt a idx) (elt b idx))"
    by (rule tgen_cong) (simp add: assms[symmetric] bidx_same)
  then show ?thesis using assms by (simp add: bshape_same)
qed

lemma sum_list_tgen2:
  "sum_list (data (tgen [n, k] F)) = (\<Sum>i<n. \<Sum>j<k. F [i, j])"
proof -
  have "sum_list (data (tgen [n, k] F)) = (\<Sum>q<n * k. F [q div k, q mod k])"
    by (simp add: tgen_def sum_list_upt)
  also have "\<dots> = (\<Sum>i<n. \<Sum>j<k. F [i, j])"
  proof (induction n)
    case 0
    then show ?case by simp
  next
    case (Suc n)
    have "(\<Sum>q<Suc n * k. F [q div k, q mod k])
          = (\<Sum>q<n * k. F [q div k, q mod k]) + (\<Sum>q = n * k..<n * k + k. F [q div k, q mod k])"
      by (simp add: lessThan_atLeast0 sum.atLeastLessThan_concat add.commute)
    also have "(\<Sum>q = n * k..<n * k + k. F [q div k, q mod k]) = (\<Sum>j<k. F [n, j])"
    proof -
      have "(\<Sum>q = n * k..<n * k + k. F [q div k, q mod k])
            = (\<Sum>j = 0..<k. F [(j + n * k) div k, (j + n * k) mod k])"
        using sum.shift_bounds_nat_ivl[of "\<lambda>q. F [q div k, q mod k]" 0 "n * k" k]
        by (simp add: add.commute)
      also have "\<dots> = (\<Sum>j = 0..<k. F [n, j])"
        by (rule sum.cong) auto
      finally show ?thesis by (simp add: lessThan_atLeast0)
    qed
    finally show ?case using Suc.IH by simp
  qed
  finally show ?thesis .
qed

lemma sum_list_map2_nth:
  "length xs = N \<Longrightarrow> length ys = N \<Longrightarrow>
   sum_list (map2 f xs ys) = (\<Sum>q<N. (f (xs ! q) (ys ! q) :: real))"
  by (simp add: sum_list_sum_nth lessThan_atLeast0)

lemma tgen_one: "tgen [Suc 0] F = \<lparr>shape = [Suc 0], data = [F [0]]\<rparr>"
  by (simp add: tgen_def)

lemma margin_sum:
  assumes wl: "wf_ten labels" and wc: "wf_ten classes"
    and sl: "shape labels = [n, k]" and sc: "shape classes = [n, k]"
  shows "t_sum_all (t_add (t_mul (Inr labels) (t_pow (relu (t_rsub 0.9 (Inr classes))) 2))
                          (t_mul (t_muls 0.5 (t_rsub 1 (Inr labels)))
                                 (t_pow (relu (t_subs (Inr classes) 0.1)) 2)))
         = Inr \<lparr>shape = [1],
                data = [\<Sum>i<n. \<Sum>j<k. margin_term (elt labels [i, j]) (elt classes [i, j])]\<rparr>"
proof -
  let ?L = "tmap (\<lambda>x. x ^ 2) (tmap (\<lambda>x. max 0 x) (tmap (\<lambda>x. 0.9 - x) classes))"
  let ?R = "tmap (\<lambda>x. x ^ 2) (tmap (\<lambda>x. max 0 x) (tmap (\<lambda>x. x - 0.1) classes))"
  let ?W = "tmap (\<lambda>x. 0.5 * x) (tmap (\<lambda>x. 1 - x) labels)"
  have left: "t_pow (relu (t_rsub 0.9 (Inr classes))) 2 = Inr ?L"
    by (simp add: t_pow_def relu_def t_rsub_def)
  have right: "t_pow (relu (t_subs (Inr classes) 0.1)) 2 = Inr ?R"
    by (simp add: t_pow_def relu_def t_subs_def)
  have w: "t_muls 0.5 (t_rsub 1 (Inr labels)) = Inr ?W"
    by (simp add: t_muls_def t_rsub_def)
  have eL: "elt ?L idx = (max 0 (0.9 - elt classes idx))\<^sup>2" if "valid [n, k] idx" for idx
    using that wc sc by (simp add: elt_tmap wf_tmap shape_tmap)
  have eR: "elt ?R idx = (max 0 (elt classes idx - 0.1))\<^sup>2" if "valid [n, k] idx" for idx
    using that wc sc by (simp add: elt_tmap wf_tmap shape_tmap)
  have eW: "elt ?W idx = 0.5 * (1 - elt labels idx)" if "valid [n, k] idx" for idx
    using that wl sl by (simp add: elt_tmap wf_tmap shape_tmap)
  let ?A = "tgen [n, k] (\<lambda>idx. elt labels idx * elt ?L idx)"
  let ?B = "tgen [n, k] (\<lambda>idx. elt ?W idx * elt ?R idx)"
  have a: "t_mul (Inr labels) (Inr ?L) = Inr ?A"
    unfolding t_mul_def using t_bin_same[of labels ?L "(*)"] sl sc by (simp add: shape_tmap)
  have b: "t_mul (Inr ?W) (Inr ?R) = Inr ?B"
    unfolding t_mul_def using t_bin_same[of ?W ?R "(*)"] sl sc by (simp add: shape_tmap)
  have "t_add (Inr ?A) (Inr ?B) = Inr (tgen [n, k] (\<lambda>idx. elt ?A idx + elt ?B idx))"
    unfolding t_add_def using t_bin_same[of ?A ?B "(+)"] by (simp add: shape_tgen)
  also have "tgen [n, k] (\<lambda>idx. elt ?A idx + elt ?B idx)
             = tgen [n, k] (\<lambda>idx. margin_term (elt labels idx) (elt classes idx))"
  proof (rule tgen_cong)
    fix idx assume v: "valid [n, k] idx"
    show "elt ?A idx + elt ?B idx = margin_term (elt labels idx) (elt classes idx)"
      unfolding elt_tgen[OF v] eL[OF v] eR[OF v] eW[OF v] margin_term_def by simp
  qed
  finally have s: "t_add (Inr ?A) (Inr ?B)
                   = Inr (tgen [n, k] (\<lambda>idx. margin_term (elt labels idx) (elt classes idx)))" .
  show ?thesis unfolding left right w a b s by (simp add: sum_list_tgen2)
qed

text \<open>The value of the loss on well-shaped arguments.\<close>

lemma MarginLoss_forward_value:
  assumes "wf_ten images" "wf_ten labels" "wf_ten classes" "wf_ten reconstructions"
    and "shape labels = [n, k]" "shape classes = [n, k]"
    and "shape images = n # rest" "0 < n"
    and "prod_list (shape reconstructions) = prod_list (shape images)"
  shows "MarginLoss_forward (Inr images) (Inr labels) (Inr classes) (Inr reconstructions)
         = Inr \<lparr>shape = [1], data = [joint_loss images labels classes reconstructions n k]\<rparr>"
proof -
  have m: "t_sum_all (t_add (t_mul (Inr labels) (t_pow (relu (t_rsub 0.9 (Inr classes))) 2))
                          (t_mul (t_muls 0.5 (t_rsub 1 (Inr labels)))
                                 (t_pow (relu (t_subs (Inr classes) 0.1)) 2)))
         = Inr \<lparr>shape = [1],
                data = [\<Sum>i<n. \<Sum>j<k. margin_term (elt labels [i, j]) (elt classes [i, j])]\<rparr>"
    by (rule margin_sum[OF assms(2,3,5,6)])
  have r: "mse_loss_sum (Inr reconstructions) (Inr images)
           = Inr \<lparr>shape = [1],
                  data = [\<Sum>q<prod_list (shape images).
                            (data reconstructions ! q - data images ! q)\<^sup>2]\<rparr>"
    using assms(1,4,9)
    by (simp add: wf_ten_def sum_list_map2_nth[where N = "prod_list (shape images)"])
  have sz: "t_size (Inr images) 0 = Inr n" using assms(7) by simp
  show ?thesis
    unfolding MarginLoss_forward_def Let_def m r sz using assms(8)
    by (simp add: t_muls_def t_add_def tmap_def bshape_def tgen_def elt_def bidx_def
        joint_loss_def)
qed

section \<open>The notebook's softmax is the softmax along the given dimension\<close>

lemma ravel_snoc:
  "length js = length ns \<Longrightarrow> ravel (ns @ [L]) (js @ [c]) = ravel ns js * L + c"
proof (induction ns arbitrary: js)
  case Nil
  then show ?case by simp
next
  case (Cons n ns)
  then obtain i js' where js: "js = i # js'" by (cases js) auto
  with Cons show ?case by (simp add: algebra_simps)
qed

lemma valid_snoc: "valid (ns @ [L]) (js @ [c]) \<longleftrightarrow> valid ns js \<and> c < L"
proof (cases "length js = length ns")
  case True
  then show ?thesis by (simp add: valid_def list_all2_append)
next
  case False
  then show ?thesis by (auto simp: valid_def dest: list_all2_lengthD)
qed

lemma valid_butlast:
  assumes "valid s idx" "s \<noteq> []"
  shows "valid (butlast s) (butlast idx)" "last idx < last s" "idx \<noteq> []"
proof -
  from assms have l: "length idx = length s" by (simp add: valid_length)
  with assms(2) have ne: "idx \<noteq> []" by auto
  have "valid (butlast s @ [last s]) (butlast idx @ [last idx])"
    using assms ne by simp
  then show "valid (butlast s) (butlast idx)" "last idx < last s" by (simp_all add: valid_snoc)
  show "idx \<noteq> []" by (rule ne)
qed

lemma ravel_last:
  assumes "valid s idx" "s \<noteq> []"
  shows "ravel s idx = ravel (butlast s) (butlast idx) * last s + last idx"
proof -
  have ne: "idx \<noteq> []" using valid_butlast(3)[OF assms] .
  have "ravel (butlast s @ [last s]) (butlast idx @ [last idx])
        = ravel (butlast s) (butlast idx) * last s + last idx"
    using assms by (intro ravel_snoc) (simp add: valid_length)
  then show ?thesis using assms(2) ne by simp
qed

lemma ravel_upd_last:
  assumes "valid s idx" "s \<noteq> []"
  shows "ravel s (idx[length s - 1 := k]) = ravel (butlast s) (butlast idx) * last s + k"
proof -
  have ne: "idx \<noteq> []" using valid_butlast(3)[OF assms] .
  have l: "length idx = length s" using assms by (simp add: valid_length)
  have "idx[length s - 1 := k] = butlast idx @ [k]"
    using ne l by (metis append_butlast_last_id length_butlast list_update_length)
  moreover have "ravel (butlast s @ [last s]) (butlast idx @ [k])
        = ravel (butlast s) (butlast idx) * last s + k"
    using assms by (intro ravel_snoc) (simp add: valid_length)
  ultimately show ?thesis using assms(2) by simp
qed

lemma swap_swap:
  "i < length xs \<Longrightarrow> j < length xs \<Longrightarrow>
   (xs[i := xs ! j, j := xs ! i])[i := xs[i := xs ! j, j := xs ! i] ! j,
                                   j := xs[i := xs ! j, j := xs ! i] ! i] = xs"
  by (rule nth_equalityI) (auto simp: nth_list_update)

lemma valid_swap:
  "valid s idx \<Longrightarrow> i < length s \<Longrightarrow> j < length s \<Longrightarrow>
   valid (s[i := s ! j, j := s ! i]) (idx[i := idx ! j, j := idx ! i])"
  by (auto simp: valid_iff nth_list_update)

lemma swap_upd_last:
  "i < length xs \<Longrightarrow> j < length xs \<Longrightarrow>
   ((xs[i := xs ! j, j := xs ! i])[j := k])[i := ((xs[i := xs ! j, j := xs ! i])[j := k]) ! j,
        j := ((xs[i := xs ! j, j := xs ! i])[j := k]) ! i] = xs[i := k]"
  by (rule nth_equalityI) (auto simp: nth_list_update)

lemma norm_dim_last: "0 < r \<Longrightarrow> norm_dim r (int r - 1) = Some (r - 1)"
  by (auto simp: norm_dim_def)

lemma prod_list_butlast: "s \<noteq> [] \<Longrightarrow> prod_list s = prod_list (butlast s) * last s"
  by (induction s) (auto simp: mult.assoc)

lemma view_shape_flat:
  "0 < L \<Longrightarrow> N mod L = 0 \<Longrightarrow> view_shape N [- 1, int L] = Some [N div L, L]"
  by (simp add: view_shape_def)

lemma view_shape_same: "prod_list s = N \<Longrightarrow> view_shape N (map int s) = Some s"
  by (simp add: view_shape_def list_all_iff comp_def)


lemma softmax_eq:
  assumes w: "wf_ten a" and nd: "norm_dim (length (shape a)) dm = Some d"
    and pos: "0 < shape a ! d"
  shows "softmax (Inr a) dm = Inr (softmax_along a d)"
proof -
  let ?s = "shape a" and ?r = "length (shape a)"
  let ?l = "?r - 1"
  have d: "d < ?r" using nd by (rule norm_dim_less)
  then have r: "0 < ?r" and l: "?l < ?r" by auto
  let ?sw = "\<lambda>xs :: nat list. xs[d := xs ! ?l, ?l := xs ! d]"
  let ?s' = "?sw ?s"
  let ?T = "tgen ?s' (\<lambda>idx. elt a (?sw idx))"
  let ?L = "?s ! d"
  have ne: "?s' \<noteq> []" using r by auto
  have "last ?s' = ?s' ! (length ?s' - 1)" by (rule last_conv_nth[OF ne])
  then have last: "last ?s' = ?L" using l d by simp
  have tr: "t_transpose (Inr a) dm (int ?r - 1) = Inr ?T"
    using nd norm_dim_last[OF r] by simp
  have sl: "t_size_last (Inr ?T) = Inr ?L"
    using ne last by (simp add: shape_tgen)
  have pr: "prod_list ?s' = prod_list (butlast ?s') * ?L"
    using prod_list_butlast[OF ne] last by simp
  let ?P = "prod_list (butlast ?s')"
  have div: "prod_list ?s' div ?L = ?P" and md: "prod_list ?s' mod ?L = 0"
    using pr pos by simp_all
  let ?V = "\<lparr>shape = [?P, ?L], data = data ?T\<rparr>"
  have vw: "t_view (Inr ?T) [- 1, int ?L] = Inr ?V"
    using view_shape_flat[OF pos md] div by (simp add: shape_tgen)
  let ?SM = "softmax_along ?V 1"
  have fs: "F_softmax (Inr ?V) = Inr ?SM" by simp
  have sh: "t_shape (Inr ?T) = Inr ?s'" by (simp add: shape_tgen)
  let ?W = "\<lparr>shape = ?s', data = data ?SM\<rparr>"
  have vb: "t_view (Inr ?SM) (map int ?s') = Inr ?W"
    using view_shape_same[of ?s' "prod_list [?P, ?L]"] pr
    by (simp add: softmax_along_def shape_tgen)
  have ss: "?sw ?s' = ?s" using swap_swap[OF d l] .
  have tb: "t_transpose (Inr ?W) dm (int ?r - 1) = Inr (tgen ?s (\<lambda>idx. elt ?W (?sw idx)))"
    using nd norm_dim_last[OF r] ss by simp
  have pt: "elt ?W (?sw idx)
            = exp (elt a idx) / sum_list (map (\<lambda>k. exp (elt a (idx[d := k]))) [0..<?L])"
    if v: "valid ?s idx" for idx
  proof -
    let ?j = "?sw idx"
    have li: "length idx = ?r" using v by (simp add: valid_length)
    have vj: "valid ?s' ?j" using valid_swap[OF v d l] .
    let ?m = "ravel ?s' ?j"
    let ?q = "ravel (butlast ?s') (butlast ?j)"
    have m: "?m = ?q * ?L + last ?j" using ravel_last[OF vj ne] last by simp
    have lj: "last ?j < ?L" using valid_butlast(2)[OF vj ne] last by simp
    have mlt: "?m < ?P * ?L" using ravel_less[OF vj] pr by simp
    have q: "?m div ?L = ?q" and c: "?m mod ?L = last ?j" using m lj by simp_all
    have bk: "?sw ?j = idx" using swap_swap[of d idx ?l] d l li by simp
    have eT: "data ?T ! ?m = elt a idx"
      using elt_tgen[OF vj, of "\<lambda>idx. elt a (?sw idx)"] bk
      by (simp add: elt_def shape_tgen)
    have eTk: "data ?T ! (?q * ?L + k) = elt a (idx[d := k])" if k: "k < ?L" for k
    proof -
      have vk: "valid ?s' (?j[?l := k])"
        using vj k l d by (auto simp: valid_iff nth_list_update)
      have "ravel ?s' (?j[?l := k]) = ?q * ?L + k"
        using ravel_upd_last[OF vj ne, of k] last by simp
      moreover have "?sw (?j[?l := k]) = idx[d := k]"
        using swap_upd_last[of d idx ?l k] d l li by simp
      ultimately show ?thesis
        using elt_tgen[OF vk, of "\<lambda>idx. elt a (?sw idx)"] by (simp add: elt_def shape_tgen)
    qed
    have "elt ?W ?j = data ?SM ! ?m" by (simp add: elt_def)
    also have "\<dots> = exp (elt ?V [?q, last ?j])
                     / sum_list (map (\<lambda>k. exp (elt ?V ([?q, last ?j][1 := k]))) [0..<?L])"
      using mlt q c by (simp add: softmax_along_def data_tgen_nth)
    also have "elt ?V [?q, last ?j] = elt a idx"
      using eT m by (simp add: elt_def)
    also have "sum_list (map (\<lambda>k. exp (elt ?V ([?q, last ?j][1 := k]))) [0..<?L])
               = sum_list (map (\<lambda>k. exp (elt a (idx[d := k]))) [0..<?L])"
    proof (rule arg_cong[where f = sum_list], rule map_cong[OF refl])
      fix k assume "k \<in> set [0..<?L]"
      then have k: "k < ?L" by simp
      have upd: "[?q, last ?j][1 := k] = [?q, k]" by simp
      have eV: "elt ?V [?q, k] = data ?T ! (?q * ?L + k)" by (simp add: elt_def)
      show "exp (elt ?V ([?q, last ?j][1 := k])) = exp (elt a (idx[d := k]))"
        unfolding upd eV eTk[OF k] ..
    qed
    finally show ?thesis .
  qed
  have fin: "softmax_along a d
             = tgen ?s (\<lambda>idx. exp (elt a idx)
                               / sum_list (map (\<lambda>k. exp (elt a (idx[d := k]))) [0..<?L]))"
    by (simp add: softmax_along_def)
  have "tgen ?s (\<lambda>idx. elt ?W (?sw idx)) = softmax_along a d"
    unfolding fin by (rule tgen_cong) (rule pt)
  then show ?thesis
    unfolding softmax_def by (simp only: t_rank.simps sum.case Let_def tr sl vw fs sh vb tb)
qed

section \<open>Facts about the routing loop\<close>

lemma okv_Inr: "okv s (Inr t) \<longleftrightarrow> wf_ten t \<and> shape t = s"
  by (simp add: okv_def)

lemma okv_Inl: "okv s (Inl e) \<longleftrightarrow> \<not> raises e"
  by (simp add: okv_def)

lemma okv_not_raise: "okv s v \<Longrightarrow> \<not> is_raise v"
  by (cases v) (simp_all add: okv_def)

lemma okv_t_bin:
  assumes "okv s a" "okv t b" "bshape s t = Some u"
  shows "okv u (t_bin f a b)"
proof (cases a)
  case (Inl e)
  then show ?thesis using assms(1) by (simp add: okv_def)
next
  case (Inr x)
  show ?thesis
  proof (cases b)
    case (Inl e)
    then show ?thesis using assms(2) Inr by (simp add: okv_def)
  next
    case (Inr y)
    then show ?thesis using assms \<open>a = Inr x\<close> by (simp add: okv_def wf_tgen shape_tgen)
  qed
qed

lemma okv_softmax:
  assumes "okv s a" "norm_dim (length s) dm = Some d" "0 < s ! d"
  shows "okv s (softmax a dm)"
proof (cases a)
  case (Inl e)
  then show ?thesis using assms(1) by (simp add: okv_def softmax_def)
next
  case (Inr x)
  then have "wf_ten x" "shape x = s" using assms(1) by (simp_all add: okv_def)
  then have "softmax (Inr x) dm = Inr (softmax_along x d)"
    using assms(2,3) by (intro softmax_eq) simp_all
  then show ?thesis using Inr \<open>shape x = s\<close>
    by (simp add: okv_def softmax_along_def wf_tgen shape_tgen)
qed

lemma okv_t_sum:
  assumes "okv s a" "norm_dim (length s) dm = Some d"
  shows "okv (s[d := 1]) (t_sum a dm True)"
proof (cases a)
  case (Inl e)
  then show ?thesis using assms(1) by (simp add: okv_def)
next
  case (Inr x)
  then show ?thesis using assms by (simp add: okv_def wf_tgen shape_tgen)
qed

lemma raises_NaN: "\<not> raises NaN"
  by (simp add: raises_def)

lemma squash_vector_Inl: "squash_vector (Inl e) dm = Inl e"
  by (simp add: squash_vector_def t_pow_def t_adds_def t_mul_def)

lemma okv_squash_vector:
  assumes "okv s a" "norm_dim (length s) dm = Some d"
  shows "okv s (squash_vector a dm)"
proof (cases a)
  case (Inl e)
  then show ?thesis using assms(1) by (simp add: okv_def squash_vector_Inl)
next
  case (Inr x)
  then have w: "wf_ten x" and sh: "shape x = s" using assms(1) by (simp_all add: okv_def)
  have nd: "norm_dim (length (shape x)) dm = Some d" using assms(2) sh by simp
  show ?thesis
  proof (cases "\<forall>idx. valid (shape x) idx \<longrightarrow> 0 < sqnorm x d idx")
    case True
    then show ?thesis
      using squash_vector_eq[OF w nd] Inr sh by (simp add: okv_def wf_tgen shape_tgen)
  next
    case False
    then obtain idx where "valid (shape x) idx" "sqnorm x d idx = 0"
      using sqnorm_nonneg[of x d] by (metis less_eq_real_def)
    then show ?thesis
      using squash_vector_zero[OF w nd] Inr by (simp add: okv_def raises_NaN)
  qed
qed

lemma okv_t_mul: "okv s a \<Longrightarrow> okv t b \<Longrightarrow> bshape s t = Some u \<Longrightarrow> okv u (t_mul a b)"
  by (simp add: t_mul_def okv_t_bin)

lemma okv_t_add: "okv s a \<Longrightarrow> okv t b \<Longrightarrow> bshape s t = Some u \<Longrightarrow> okv u (t_add a b)"
  by (simp add: t_add_def okv_t_bin)

lemma routing_iteration_ok:
  assumes p: "okv s priors" and lg: "okv s (st_logits st)"
    and r5: "length s = 5" and pos: "0 < s ! 2"
  shows "okv s (st_logits (routing_iteration self priors st i))"
    and "\<exists>out. st_outputs (routing_iteration self priors st i) = Some out \<and> okv (s[2 := 1]) out"
    and "st_executed (routing_iteration self priors st i) = st_executed st @ [i]"
    and "st_updated (routing_iteration self priors st i)
         = st_updated st @ (if i \<noteq> num_iterations self - 1 then [i] else [])"
proof -
  have d2: "norm_dim (length s) 2 = Some 2" and d4: "norm_dim (length s) (- 1) = Some 4"
    using r5 by (simp_all add: norm_dim_def)
  let ?probs = "softmax (st_logits st) 2"
  have 1: "okv s ?probs" using okv_softmax[OF lg d2] pos by simp
  have 2: "okv s (t_mul ?probs priors)"
    by (rule okv_t_mul[OF 1 p bshape_same])
  let ?out = "t_sum (squash_vector (t_mul ?probs priors) (- 1)) 2 True"
  have 3: "okv (s[2 := 1]) ?out"
    by (rule okv_t_sum[OF okv_squash_vector[OF 2 d4] d2])
  have 4: "okv s (t_mul priors ?out)"
    by (rule okv_t_mul[OF p 3 bshape_upd_right])
  have d4': "norm_dim (length s) (- 1) = Some 4" by (rule d4)
  have 5: "okv (s[4 := 1]) (t_sum (t_mul priors ?out) (- 1) True)"
    by (rule okv_t_sum[OF 4 d4'])
  have 6: "okv s (t_add (st_logits st) (t_sum (t_mul priors ?out) (- 1) True))"
    by (rule okv_t_add[OF lg 5 bshape_upd_right])
  show "okv s (st_logits (routing_iteration self priors st i))"
    using lg 6 by (simp add: routing_iteration_def Let_def)
  show "\<exists>out. st_outputs (routing_iteration self priors st i) = Some out \<and> okv (s[2 := 1]) out"
    using 3 by (simp add: routing_iteration_def Let_def)
  show "st_executed (routing_iteration self priors st i) = st_executed st @ [i]"
    by (simp add: routing_iteration_def Let_def)
  show "st_updated (routing_iteration self priors st i)
         = st_updated st @ (if i \<noteq> num_iterations self - 1 then [i] else [])"
    by (simp add: routing_iteration_def Let_def)
qed

lemma routing_iteration_not_raised:
  assumes "okv s priors" "okv s (st_logits st)" "length s = 5" "0 < s ! 2"
  shows "\<not> raised (routing_iteration self priors st i)"
  using routing_iteration_ok(1,2)[OF assms, of self i]
  by (auto simp: raised_def dest: okv_not_raise)

lemma routing_loop_ok:
  assumes p: "okv s priors" and r5: "length s = 5" and pos: "0 < s ! 2"
  shows "okv s (st_logits st) \<Longrightarrow>
         okv s (st_logits (routing_loop self priors st js)) \<and>
         st_executed (routing_loop self priors st js) = st_executed st @ js \<and>
         st_updated (routing_loop self priors st js)
           = st_updated st @ filter (\<lambda>i. i \<noteq> num_iterations self - 1) js \<and>
         (js \<noteq> [] \<longrightarrow> (\<exists>out. st_outputs (routing_loop self priors st js) = Some out
                                \<and> okv (s[2 := 1]) out))"
proof (induction js arbitrary: st)
  case Nil
  then show ?case by simp
next
  case (Cons i js)
  let ?st = "routing_iteration self priors st i"
  have nr: "\<not> raised ?st" by (rule routing_iteration_not_raised[OF p Cons.prems r5 pos])
  have it: "okv s (st_logits ?st)"
    "\<exists>out. st_outputs ?st = Some out \<and> okv (s[2 := 1]) out"
    "st_executed ?st = st_executed st @ [i]"
    "st_updated ?st = st_updated st @ (if i \<noteq> num_iterations self - 1 then [i] else [])"
    using routing_iteration_ok[OF p Cons.prems r5 pos, of self i] by blast+
  have eq: "routing_loop self priors st (i # js) = routing_loop self priors ?st js"
    using nr by (simp add: Let_def)
  show ?case
  proof (cases "js = []")
    case True
    then show ?thesis using it eq by simp
  next
    case False
    then show ?thesis using Cons.IH[OF it(1)] it(3,4) eq by simp
  qed
qed

lemma filter_range: "filter (\<lambda>i. i \<noteq> n - 1) (range n) = range (n - 1)"
proof (cases "n \<le> 0")
  case True
  then show ?thesis by (simp add: range_def)
next
  case False
  then obtain m where n: "n = int (Suc m)" by (metis not_le zero_less_imp_eq_int gr0_implies_Suc)
  have "filter (\<lambda>i. i \<noteq> int m) (map int [0..<m]) = map int [0..<m]"
    by (rule filter_True) auto
  moreover have "nat n = Suc m" "nat (n - 1) = m" "n - 1 = int m" using n by simp_all
  ultimately show ?thesis by (simp add: range_def)
qed

lemma valid5:
  "valid [C, B, R, Q, P] idx \<longleftrightarrow>
   (\<exists>c b r q p. idx = [c, b, r, q, p] \<and> c < C \<and> b < B \<and> r < R \<and> q < Q \<and> p < P)"
  by (auto simp: valid_def list_all2_Cons2)

lemma bshape_priors: "bshape [Suc 0, B, R] [C, Suc 0, R] = Some [C, B, R]"
  by (simp add: bshape_def)

lemma routing_priors_eq:
  assumes rw: "route_weights self = Some rw" "shape rw = [C, R, K, M]"
    and x: "shape x = [B, R, K]"
  shows "routing_priors self (Inr x)
         = Inr (tgen [C, B, R, 1, M]
                 (\<lambda>idx. \<Sum>k<K. elt x [idx ! 1, idx ! 2, k] * elt rw [idx ! 0, idx ! 2, k, idx ! 4]))"
proof -
  let ?a = "\<lparr>shape = [1, B, R, 1, K], data = data x\<rparr>"
  let ?b = "\<lparr>shape = [C, 1, R, K, M], data = data rw\<rparr>"
  have ia: "t_index (Inr x) [NewAxis, All, All, NewAxis, All] = Inr ?a"
    using x by simp
  have ib: "t_index (Inr rw) [All, NewAxis, All, All, All] = Inr ?b"
    using rw(2) by simp
  let ?F = "\<lambda>idx. let bi = take 3 idx; i = idx ! 3; j = idx ! Suc 3
                 in sum_list (map (\<lambda>k. elt ?a (bidx [1, B, R] bi @ [i, k])
                                      * elt ?b (bidx [C, 1, R] bi @ [k, j])) [0..<K])"
  have mm: "t_matmul (Inr ?a) (Inr ?b) = Inr (tgen [C, B, R, 1, M] ?F)"
    by (simp add: bshape_priors eval_nat_numeral)
  have "tgen [C, B, R, 1, M] ?F
        = tgen [C, B, R, 1, M]
            (\<lambda>idx. \<Sum>k<K. elt x [idx ! 1, idx ! 2, k] * elt rw [idx ! 0, idx ! 2, k, idx ! 4])"
  proof (rule tgen_cong)
    fix idx assume "valid [C, B, R, 1, M] idx"
    then obtain c b r p where idx: "idx = [c, b, r, 0, p]" and lt: "c < C" "b < B" "r < R" "p < M"
      by (auto simp: valid5)
    have 1: "bidx [1, B, R] [c, b, r] = [0, b, r]" using lt by (auto simp: bidx_def)
    have 2: "bidx [C, 1, R] [c, b, r] = [c, 0, r]" using lt by (auto simp: bidx_def)
    have 3: "elt ?a [0, b, r, 0, k] = elt x [b, r, k]" for k
      using x by (simp add: elt_def)
    have 4: "elt ?b [c, 0, r, k, p] = elt rw [c, r, k, p]" for k
      using rw(2) by (simp add: elt_def algebra_simps)
    show "?F idx = (\<Sum>k<K. elt x [idx ! 1, idx ! 2, k] * elt rw [idx ! 0, idx ! 2, k, idx ! 4])"
      unfolding idx by (simp add: 1 2 3 4 sum_list_upt del: One_nat_def)
  qed
  then show ?thesis unfolding routing_priors_def rw(1) option.case ia ib mm by simp
qed

lemma softmax_zeros:
  assumes "norm_dim (length s) dm = Some d" "0 < s ! d"
  shows "softmax (t_zeros s) dm = Inr (tgen s (\<lambda>idx. 1 / real (s ! d)))"
proof -
  let ?Z = "tgen s (\<lambda>idx. 0)"
  have "softmax (Inr ?Z) dm = Inr (softmax_along ?Z d)"
    using assms by (intro softmax_eq) (simp_all add: wf_tgen shape_tgen)
  moreover have "softmax_along ?Z d = tgen s (\<lambda>idx. 1 / real (s ! d))"
  proof -
    have "tgen s (\<lambda>idx. exp (elt ?Z idx) / sum_list (map (\<lambda>k. exp (elt ?Z (idx[d := k]))) [0..<s ! d]))
          = tgen s (\<lambda>idx. 1 / real (s ! d))"
    proof (rule tgen_cong)
      fix idx assume v: "valid s idx"
      have "elt ?Z (idx[d := k]) = 0" if "k < s ! d" for k
        using valid_upd_k[OF v that] by (simp add: elt_tgen)
      then have "sum_list (map (\<lambda>k. exp (elt ?Z (idx[d := k]))) [0..<s ! d]) = real (s ! d)"
        by (simp add: sum_list_upt)
      then show "exp (elt ?Z idx) / sum_list (map (\<lambda>k. exp (elt ?Z (idx[d := k]))) [0..<s ! d])
                 = 1 / real (s ! d)"
        using v by (simp add: elt_tgen)
    qed
    then show ?thesis by (simp add: softmax_along_def shape_tgen)
  qed
  ultimately show ?thesis by (simp add: t_zeros_def)
qed

text \<open>The values the loop leaves, when no iteration is the last but the last one.\<close>

lemma routing_iteration_values:
  "st_logits (routing_iteration self priors st i)
   = (if i \<noteq> num_iterations self - 1 then logits_update priors (st_logits st)
      else st_logits st)"
  "st_outputs (routing_iteration self priors st i) = Some (outputs_from priors (st_logits st))"
  by (simp_all add: routing_iteration_def Let_def logits_update_def outputs_from_def
      agreement_def coupling_def)

lemma routing_loop_values:
  assumes p: "okv s priors" and r5: "length s = 5" and pos: "0 < s ! 2"
  shows "okv s (st_logits st) \<Longrightarrow> list_all (\<lambda>i. i \<noteq> num_iterations self - 1) js \<Longrightarrow>
         st_logits (routing_loop self priors st (js @ [num_iterations self - 1]))
           = (logits_update priors ^^ length js) (st_logits st) \<and>
         st_outputs (routing_loop self priors st (js @ [num_iterations self - 1]))
           = Some (outputs_from priors ((logits_update priors ^^ length js) (st_logits st)))"
proof (induction js arbitrary: st)
  case Nil
  then show ?case by (simp add: Let_def routing_iteration_values)
next
  case (Cons i js)
  let ?st = "routing_iteration self priors st i"
  have nr: "\<not> raised ?st" by (rule routing_iteration_not_raised[OF p Cons.prems(1) r5 pos])
  have ok: "okv s (st_logits ?st)"
    using routing_iteration_ok(1)[OF p Cons.prems(1) r5 pos] .
  have i: "i \<noteq> num_iterations self - 1" and js: "list_all (\<lambda>i. i \<noteq> num_iterations self - 1) js"
    using Cons.prems(2) by simp_all
  have lg: "st_logits ?st = logits_update priors (st_logits st)"
    using i by (simp add: routing_iteration_values)
  have eq: "routing_loop self priors st ((i # js) @ [num_iterations self - 1])
            = routing_loop self priors ?st (js @ [num_iterations self - 1])"
    using nr by (simp add: Let_def)
  show ?case
    unfolding eq using Cons.IH[OF ok js] by (simp add: lg funpow_swap1)
qed

lemma range_snoc: "1 \<le> n \<Longrightarrow> range n = range (n - 1) @ [n - 1]"
proof -
  assume n: "1 \<le> n"
  then have "nat n = Suc (nat (n - 1))" by simp
  then have "[0..<nat n] = [0..<nat (n - 1)] @ [nat (n - 1)]" by simp
  then show ?thesis using n by (simp add: range_def)
qed

lemma range_below: "list_all (\<lambda>i. i \<noteq> n - 1) (range (n - 1))"
  by (auto simp: range_def list_all_iff)

lemma length_range: "length (range n) = nat n"
  by (simp add: range_def)

section \<open>Constant tensors through the layers\<close>

lemma full_replicate: "full s c = \<lparr>shape = s, data = replicate (prod_list s) c\<rparr>"
  by (simp add: full_def tgen_def map_replicate_const)

lemma shape_full: "shape (full s c) = s"
  by (simp add: full_def shape_tgen)

lemma wf_full: "wf_ten (full s c)"
  by (simp add: full_def wf_tgen)

lemma elt_full: "valid s idx \<Longrightarrow> elt (full s c) idx = c"
  by (simp add: full_def elt_tgen)

lemma tgen_const: "(\<And>idx. valid s idx \<Longrightarrow> f idx = c) \<Longrightarrow> tgen s f = full s c"
  unfolding full_def by (rule tgen_cong)

lemma tmap_full: "tmap f (full s c) = full s (f c)"
  by (simp add: full_replicate tmap_def)

lemma t_bin_full_same: "t_bin f (Inr (full s a)) (Inr (full s b)) = Inr (full s (f a b))"
proof -
  have "t_bin f (Inr (full s a)) (Inr (full s b))
        = Inr (tgen (shape (full s a)) (\<lambda>idx. f (elt (full s a) idx) (elt (full s b) idx)))"
    by (rule t_bin_same) (simp add: shape_full)
  also have "tgen (shape (full s a)) (\<lambda>idx. f (elt (full s a) idx) (elt (full s b) idx))
             = full s (f a b)"
    unfolding shape_full by (rule tgen_const) (simp add: elt_full)
  finally show ?thesis .
qed

lemma t_bin_full_right:
  "t_bin f (Inr (full s a)) (Inr (full (s[d := 1]) b)) = Inr (full s (f a b))"
proof -
  have "tgen s (\<lambda>idx. f (elt (full s a) (bidx s idx)) (elt (full (s[d := 1]) b) (bidx (s[d := 1]) idx)))
        = full s (f a b)"
    by (rule tgen_const) (simp add: bidx_same bidx_upd elt_full valid_upd del: One_nat_def)
  then show ?thesis by (simp add: shape_full bshape_upd_right del: One_nat_def)
qed

lemma t_sum_full_keep:
  assumes "norm_dim (length s) dm = Some d"
  shows "t_sum (Inr (full s c)) dm True = Inr (full (s[d := 1]) (real (s ! d) * c))"
proof -
  have "tgen (s[d := 1]) (\<lambda>idx. sum_list (map (\<lambda>k. elt (full s c) (idx[d := k])) [0..<s ! d]))
        = full (s[d := 1]) (real (s ! d) * c)"
  proof (rule tgen_const)
    fix idx assume v: "valid (s[d := 1]) idx"
    have "elt (full s c) (idx[d := k]) = c" if "k < s ! d" for k
      using valid_upd_back[OF v that] by (simp add: elt_full)
    then show "sum_list (map (\<lambda>k. elt (full s c) (idx[d := k])) [0..<s ! d]) = real (s ! d) * c"
      by (simp add: sum_list_upt)
  qed
  then show ?thesis using assms by (simp add: shape_full del: One_nat_def)
qed

lemma sqnorm_full:
  "valid s idx \<Longrightarrow> sqnorm (full s c) d idx = real (s ! d) * c\<^sup>2"
proof -
  assume v: "valid s idx"
  have "elt (full s c) (idx[d := k]) = c" if "k < s ! d" for k
    using valid_upd_k[OF v that] by (simp add: elt_full)
  then show ?thesis by (simp add: sqnorm_def shape_full)
qed

lemma squash_vector_full:
  assumes nd: "norm_dim (length s) dm = Some d" and pos: "0 < s ! d" "c \<noteq> 0"
  shows "squash_vector (Inr (full s c)) dm
         = Inr (full s (real (s ! d) * c\<^sup>2 / (1 + real (s ! d) * c\<^sup>2) * c
                        / sqrt (real (s ! d) * c\<^sup>2)))"
proof -
  have p: "0 < sqnorm (full s c) d idx" if "valid (shape (full s c)) idx" for idx
    using that pos by (simp add: shape_full sqnorm_full)
  have "squash_vector (Inr (full s c)) dm
        = Inr (tgen s (\<lambda>idx. sqnorm (full s c) d idx / (1 + sqnorm (full s c) d idx)
                              * elt (full s c) idx / sqrt (sqnorm (full s c) d idx)))"
    using squash_vector_eq[OF wf_full _ p, of dm] nd by (simp add: shape_full)
  also have "tgen s (\<lambda>idx. sqnorm (full s c) d idx / (1 + sqnorm (full s c) d idx)
                              * elt (full s c) idx / sqrt (sqnorm (full s c) d idx))
             = full s (real (s ! d) * c\<^sup>2 / (1 + real (s ! d) * c\<^sup>2) * c
                        / sqrt (real (s ! d) * c\<^sup>2))"
    by (rule tgen_const) (simp add: sqnorm_full elt_full)
  finally show ?thesis .
qed

lemma softmax_full:
  assumes "norm_dim (length s) dm = Some d" "0 < s ! d"
  shows "softmax (Inr (full s c)) dm = Inr (full s (1 / real (s ! d)))"
proof -
  have "softmax (Inr (full s c)) dm = Inr (softmax_along (full s c) d)"
    using assms by (intro softmax_eq) (simp_all add: wf_full shape_full)
  moreover have "softmax_along (full s c) d = full s (1 / real (s ! d))"
  proof -
    have "tgen s (\<lambda>idx. exp (elt (full s c) idx)
                        / sum_list (map (\<lambda>k. exp (elt (full s c) (idx[d := k]))) [0..<s ! d]))
          = full s (1 / real (s ! d))"
    proof (rule tgen_const)
      fix idx assume v: "valid s idx"
      have "elt (full s c) (idx[d := k]) = c" if "k < s ! d" for k
        using valid_upd_k[OF v that] by (simp add: elt_full)
      then have "sum_list (map (\<lambda>k. exp (elt (full s c) (idx[d := k]))) [0..<s ! d])
                 = real (s ! d) * exp c"
        by (simp add: sum_list_upt)
      then show "exp (elt (full s c) idx)
                 / sum_list (map (\<lambda>k. exp (elt (full s c) (idx[d := k]))) [0..<s ! d])
                 = 1 / real (s ! d)"
        using v by (simp add: elt_full)
    qed
    then show ?thesis by (simp add: softmax_along_def shape_full)
  qed
  ultimately show ?thesis by simp
qed

lemma valid4:
  "valid [A, B, C, D] idx \<longleftrightarrow>
   (\<exists>a b c d. idx = [a, b, c, d] \<and> a < A \<and> b < B \<and> c < C \<and> d < D)"
  by (auto simp: valid_def list_all2_Cons2)

lemma valid3:
  "valid [A, B, C] idx \<longleftrightarrow> (\<exists>a b c. idx = [a, b, c] \<and> a < A \<and> b < B \<and> c < C)"
  by (auto simp: valid_def list_all2_Cons2)

lemma valid2: "valid [A, B] idx \<longleftrightarrow> (\<exists>a b. idx = [a, b] \<and> a < A \<and> b < B)"
  by (auto simp: valid_def list_all2_Cons2)

lemma valid1: "valid [A] idx \<longleftrightarrow> (\<exists>a. idx = [a] \<and> a < A)"
  by (auto simp: valid_def list_all2_Cons2)

lemma conv2d_zero_weight:
  assumes x: "shape x = [n, ci, h, w]"
    and c: "weight c = full [co, ci, kh, kw] 0" "bias c = full [co] b"
    and sz: "kh \<le> h" "kw \<le> w" "0 < conv_stride c"
  shows "conv2d c (Inr x)
         = Inr (full [n, co, (h - kh) div conv_stride c + 1, (w - kw) div conv_stride c + 1] b)"
proof -
  let ?s = "[n, co, (h - kh) div conv_stride c + 1, (w - kw) div conv_stride c + 1]"
  let ?F = "\<lambda>idx. elt (bias c) [idx ! 1]
                    + sum_list (map (\<lambda>q. sum_list (map (\<lambda>u. sum_list (map (\<lambda>v.
                          elt (weight c) [idx ! 1, q, u, v]
                          * elt x [idx ! 0, q, idx ! 2 * conv_stride c + u,
                                   idx ! 3 * conv_stride c + v])
                        [0..<kw])) [0..<kh])) [0..<ci])"
  have "tgen ?s ?F = full ?s b"
  proof (rule tgen_const)
    fix idx assume v: "valid ?s idx"
    then obtain a oc i j where idx: "idx = [a, oc, i, j]" and oc: "oc < co"
      by (auto simp: valid4)
    have wz: "elt (weight c) [oc, q, u, v] = 0" if "q < ci" "u < kh" "v < kw" for q u v
      using that oc by (simp add: c elt_full valid4)
    have "(\<Sum>q<ci. \<Sum>u<kh. \<Sum>v<kw. elt (weight c) [oc, q, u, v]
              * elt x [a, q, i * conv_stride c + u, j * conv_stride c + v]) = 0"
      by (intro sum.neutral ballI) (simp add: wz)
    moreover have "elt (bias c) [oc] = b" using oc by (simp add: c elt_full valid1)
    ultimately show "?F idx = b" by (simp add: idx sum_list_upt)
  qed
  then show ?thesis using x c sz by (simp add: shape_full)
qed

lemma cat_pick_ones:
  "\<forall>t\<in>set ts. shape t ! d = 1 \<Longrightarrow> idx ! d < length ts \<Longrightarrow> d < length idx \<Longrightarrow>
   cat_pick ts d idx = elt (ts ! (idx ! d)) (idx[d := 0])"
proof (induction ts arbitrary: idx)
  case Nil
  then show ?case by simp
next
  case (Cons t ts)
  show ?case
  proof (cases "idx ! d")
    case 0
    then have "idx[d := 0] = idx" by (metis list_update_id)
    then show ?thesis using Cons.prems 0 by simp
  next
    case (Suc m)
    have "cat_pick ts d (idx[d := m]) = elt (ts ! m) (idx[d := 0])"
      using Cons.IH[of "idx[d := m]"] Cons.prems Suc by simp
    then show ?thesis using Cons.prems Suc by simp
  qed
qed

lemma sequence_map_Inr: "sequence (map (\<lambda>j. Inr (f j)) js) = Inr (map f js)"
  by (induction js) simp_all

lemma t_cat_last:
  assumes "\<And>j. j < m \<Longrightarrow> shape (f j) = s @ [1]" "0 < m"
  shows "t_cat (map (\<lambda>j. Inr (f j)) [0..<m]) (- 1)
         = Inr (tgen (s @ [m]) (\<lambda>idx. elt (f (idx ! length s)) (idx[length s := 0])))"
proof -
  let ?ts = "map f [0..<m]" and ?d = "length s"
  have hd: "[0..<m] = 0 # [1..<m]" using assms(2) by (simp add: upt_rec)
  define t where "t = f 0"
  define ts where "ts = map f [1..<m]"
  have ts: "?ts = t # ts" unfolding t_def ts_def by (subst hd) simp
  have t: "shape t = s @ [1]" unfolding t_def using assms by simp
  have nd: "norm_dim (length (shape t)) (- 1) = Some ?d" by (simp add: t norm_dim_def)
  have all: "list_all (\<lambda>u. (shape u)[?d := 0] = (shape t)[?d := 0]) ts"
    unfolding ts_def t by (simp add: list_all_iff assms(1))
  have "map (\<lambda>u. shape u ! ?d) ?ts = map (\<lambda>j. 1) [0..<m]"
    by (simp add: assms(1))
  then have "sum_list (map (\<lambda>u. shape u ! ?d) ?ts) = m"
    by (simp only: sum_list_upt) simp
  then have tot: "(shape t)[?d := sum_list (map (\<lambda>u. shape u ! ?d) (t # ts))] = s @ [m]"
    unfolding ts[symmetric] by (simp add: t)
  have pk0: "tgen (s @ [m]) (cat_pick ?ts ?d)
        = tgen (s @ [m]) (\<lambda>idx. elt (f (idx ! ?d)) (idx[?d := 0]))"
  proof (rule tgen_cong)
    fix idx assume v: "valid (s @ [m]) idx"
    have l: "length idx = Suc ?d" using valid_length[OF v] by simp
    have k: "idx ! ?d < m" using valid_nth[OF v, of ?d] by (simp add: nth_append)
    have ones: "\<forall>u\<in>set ?ts. shape u ! ?d = 1" by (simp add: assms(1))
    have "cat_pick ?ts ?d idx = elt (?ts ! (idx ! ?d)) (idx[?d := 0])"
      by (rule cat_pick_ones[OF ones]) (simp_all add: k l)
    then show "cat_pick ?ts ?d idx = elt (f (idx ! ?d)) (idx[?d := 0])" using k by simp
  qed
  have pk: "tgen (s @ [m]) (cat_pick (t # ts) ?d)
        = tgen (s @ [m]) (\<lambda>idx. elt (f (idx ! ?d)) (idx[?d := 0]))"
    using pk0 unfolding ts .
  have sq: "sequence (map (\<lambda>j. Inr (f j)) [0..<m]) = Inr (t # ts)"
    using sequence_map_Inr[of f "[0..<m]"] unfolding ts .
  show ?thesis
    unfolding t_cat_def sq sum.case list.case nd option.case
    by (simp only: all tot pk if_True)
qed

lemma linear_zero_weight:
  assumes x: "shape x = bs @ [i]"
    and l: "lin_weight l = full [m, i] 0" "lin_bias l = full [m] b"
  shows "linear l (Inr x) = Inr (full (bs @ [m]) b)"
proof -
  let ?F = "\<lambda>idx. elt (lin_bias l) [last idx]
                    + sum_list (map (\<lambda>k. elt x (butlast idx @ [k])
                                          * elt (lin_weight l) [last idx, k]) [0..<i])"
  have "tgen (bs @ [m]) ?F = full (bs @ [m]) b"
  proof (rule tgen_const)
    fix idx assume v: "valid (bs @ [m]) idx"
    have ne: "bs @ [m] \<noteq> []" by simp
    have lt: "last idx < m" using valid_butlast(2)[OF v ne] by simp
    have wz: "elt (lin_weight l) [last idx, k] = 0" if "k < i" for k
      using that lt by (simp add: l elt_full valid2)
    have "(\<Sum>k<i. elt x (butlast idx @ [k]) * elt (lin_weight l) [last idx, k]) = 0"
      by (intro sum.neutral ballI) (simp add: wz)
    moreover have "elt (lin_bias l) [last idx] = b" using lt by (simp add: l elt_full valid1)
    ultimately show "?F idx = b" by (simp add: sum_list_upt)
  qed
  then show ?thesis using x l by (simp add: shape_full)
qed

lemma t_map_full: "t_map f (Inr (full s c)) = Inr (full s (f c))"
  by (simp add: tmap_full)

lemma relu_full: "relu (Inr (full s c)) = Inr (full s (max 0 c))"
  by (simp add: relu_def tmap_full)

lemma t_pow_full: "t_pow (Inr (full s c)) k = Inr (full s (c ^ k))"
  by (simp add: t_pow_def tmap_full)

lemma t_sqrt_full: "0 \<le> c \<Longrightarrow> t_sqrt (Inr (full s c)) = Inr (full s (sqrt c))"
  by (simp add: full_replicate tmap_def list_ex_iff)

lemma t_sum_full_drop:
  assumes "norm_dim (length s) dm = Some d"
  shows "t_sum (Inr (full s c)) dm False
         = Inr (full (take d s @ drop (Suc d) s) (real (s ! d) * c))"
proof -
  have d: "d < length s" using assms by (rule norm_dim_less)
  let ?s' = "take d s @ drop (Suc d) s"
  have "tgen ?s' (\<lambda>idx. sum_list (map (\<lambda>k. elt (full s c) (take d idx @ k # drop d idx)) [0..<s ! d]))
        = full ?s' (real (s ! d) * c)"
  proof (rule tgen_const)
    fix idx assume v: "valid ?s' idx"
    have li: "length idx = length s - 1" using valid_length[OF v] d by simp
    have "valid s (take d idx @ k # drop d idx)" if k: "k < s ! d" for k
    proof -
      have "length (take d idx @ k # drop d idx) = length s" using li d by simp
      moreover have "(take d idx @ k # drop d idx) ! j < s ! j" if j: "j < length s" for j
      proof -
        consider "j < d" | "j = d" | "d < j" by linarith
        then show ?thesis
        proof cases
          case 1
          then have "idx ! j < ?s' ! j" using valid_nth[OF v, of j] d li by simp
          then show ?thesis using 1 d li by (simp add: nth_append)
        next
          case 2
          then show ?thesis using k d li by (simp add: nth_append)
        next
          case 3
          then obtain j' where j': "j = Suc j'" "d \<le> j'" by (cases j) auto
          have "idx ! j' < ?s' ! j'" using valid_nth[OF v, of j'] j j' d li by simp
          moreover have "?s' ! j' = s ! j" using j' d j by (simp add: nth_append)
          moreover have "(take d idx @ k # drop d idx) ! j = idx ! j'"
            using j' d li j by (simp add: nth_append nth_Cons')
          ultimately show ?thesis by simp
        qed
      qed
      ultimately show ?thesis by (simp add: valid_iff)
    qed
    then have "elt (full s c) (take d idx @ k # drop d idx) = c" if "k < s ! d" for k
      using that by (simp add: elt_full)
    then show "sum_list (map (\<lambda>k. elt (full s c) (take d idx @ k # drop d idx)) [0..<s ! d])
               = real (s ! d) * c"
      by (simp add: sum_list_upt)
  qed
  then show ?thesis using assms by (simp add: shape_full)
qed

lemma t_transpose_full:
  assumes "norm_dim (length s) d0 = Some i" "norm_dim (length s) d1 = Some j"
  shows "t_transpose (Inr (full s c)) d0 d1 = Inr (full (s[i := s ! j, j := s ! i]) c)"
proof -
  have i: "i < length s" and j: "j < length s" using assms by (auto dest: norm_dim_less)
  have "tgen (s[i := s ! j, j := s ! i]) (\<lambda>idx. elt (full s c) (idx[i := idx ! j, j := idx ! i]))
        = full (s[i := s ! j, j := s ! i]) c"
  proof (rule tgen_const)
    fix idx assume v: "valid (s[i := s ! j, j := s ! i]) idx"
    have "valid s (idx[i := idx ! j, j := idx ! i])"
      using valid_swap[OF v, of i j] i j swap_swap[OF i j] by simp
    then show "elt (full s c) (idx[i := idx ! j, j := idx ! i]) = c" by (simp add: elt_full)
  qed
  then show ?thesis using assms by (simp add: shape_full)
qed

lemma F_softmax_full2:
  "0 < m \<Longrightarrow> F_softmax (Inr (full [n, m] c)) = Inr (full [n, m] (1 / real m))"
proof -
  assume m: "0 < m"
  have "tgen [n, m] (\<lambda>idx. exp (elt (full [n, m] c) idx)
                        / sum_list (map (\<lambda>k. exp (elt (full [n, m] c) (idx[1 := k]))) [0..<m]))
          = full [n, m] (1 / real m)"
  proof (rule tgen_const)
    fix idx assume v: "valid [n, m] idx"
    have "elt (full [n, m] c) (idx[1 := k]) = c" if "k < m" for k
      using valid_upd_k[OF v, of k 1] that by (simp add: elt_full)
    then have "sum_list (map (\<lambda>k. exp (elt (full [n, m] c) (idx[1 := k]))) [0..<m])
                 = real m * exp c"
      by (simp add: sum_list_upt)
    then show "exp (elt (full [n, m] c) idx)
                 / sum_list (map (\<lambda>k. exp (elt (full [n, m] c) (idx[1 := k]))) [0..<m])
                 = 1 / real m"
      using v m by (simp add: elt_full)
  qed
  then show ?thesis by (simp add: softmax_along_def shape_full)
qed

section \<open>The network with simple parameters, evaluated\<close>

lemma new_CapsuleNet_iv0: "new_CapsuleNet iv0 = Inr net0"
  by (simp add: new_CapsuleNet_def new_CapsuleLayer_def iv0_def net0_def)

lemma new_Conv2d_const:
  "new_Conv2d ci co k s (\<lambda>idx. a, \<lambda>idx. b)
   = \<lparr>weight = full [co, ci, k, k] a, bias = full [co] b, conv_stride = s\<rparr>"
  by (simp add: new_Conv2d_def full_def)

lemma new_Linear_const:
  "new_Linear i m (\<lambda>idx. a, \<lambda>idx. b) = \<lparr>lin_weight = full [m, i] a, lin_bias = full [m] b\<rparr>"
  by (simp add: new_Linear_def full_def)

lemma net0_conv1:
  "relu (conv2d (conv1 net0) (Inr (black n))) = Inr (full [n, 256, 20, 20] 0)"
proof -
  have "conv2d (conv1 net0) (Inr (black n))
        = Inr (full [n, 256, (28 - 9) div conv_stride (conv1 net0) + 1,
                     (28 - 9) div conv_stride (conv1 net0) + 1] 0)"
    by (rule conv2d_zero_weight[where ci = 1])
       (simp_all add: net0_def new_Conv2d_const black_def shape_full)
  then show ?thesis by (simp add: net0_def new_Conv2d_const relu_full)
qed

lemma sum_beta: "(\<Sum>k<8. (beta k)\<^sup>2) = 1"
  by (simp add: beta_def lessThan_Suc eval_nat_numeral)

lemma net0_primary_convs:
  assumes n: "0 < n" and j: "j < 8"
  shows "(case t_size (Inr (full [n, 256, 20, 20] 0)) 0 of
            Inl e \<Rightarrow> Inl e
          | Inr m \<Rightarrow> t_view (conv2d (new_Conv2d 256 32 9 2 (\<lambda>idx. 0, \<lambda>idx. beta j))
                                 (Inr (full [n, 256, 20, 20] 0))) [int m, - 1, 1])
         = Inr (full [n, 1152, 1] (beta j))"
proof -
  let ?c = "new_Conv2d 256 32 9 2 (\<lambda>idx. 0, \<lambda>idx. beta j)"
  have "conv2d ?c (Inr (full [n, 256, 20, 20] 0))
        = Inr (full [n, 32, (20 - 9) div conv_stride ?c + 1, (20 - 9) div conv_stride ?c + 1] (beta j))"
    by (rule conv2d_zero_weight[where ci = 256])
       (simp_all add: new_Conv2d_const shape_full)
  then have c: "conv2d ?c (Inr (full [n, 256, 20, 20] 0)) = Inr (full [n, 32, 6, 6] (beta j))"
    by (simp add: new_Conv2d_const)
  have vs: "view_shape (n * 1152) [int n, - 1, 1] = Some [n, 1152, 1]"
    using n by (simp add: view_shape_def)
  show ?thesis
    unfolding c by (simp add: shape_full vs) (simp add: full_replicate)
qed

lemma sum_beta1: "(\<Sum>k<8. beta k) = 1"
  by (simp add: beta_def lessThan_Suc eval_nat_numeral)

lemma net0_primary:
  assumes n: "0 < n"
  shows "CapsuleLayer_forward (primary_capsules net0) (Inr (full [n, 256, 20, 20] 0))
         = Inr (tgen [n, 1152, 8] (\<lambda>idx. beta (idx ! 2) / 2))"
proof -
  let ?x = "Inr (full [n, 256, 20, 20] 0) :: ten res"
  let ?cs = "map (\<lambda>j. new_Conv2d 256 32 9 2 (\<lambda>idx. 0, \<lambda>idx. beta j)) [0..<8]"
  let ?g = "\<lambda>capsule. case t_size ?x 0 of
                        Inl e \<Rightarrow> Inl e
                      | Inr m \<Rightarrow> t_view (conv2d capsule ?x) [int m, - 1, 1]"
  have cs: "capsules (primary_capsules net0) = Some ?cs"
    by (simp add: net0_def beta_def)
  have m: "map ?g ?cs = map (\<lambda>j. Inr (full [n, 1152, 1] (beta j))) [0..<8]"
    unfolding map_map comp_def
  proof (rule map_cong[OF refl])
    fix j :: nat assume "j \<in> set [0..<8]"
    then have "j < 8" by simp
    then show "?g (new_Conv2d 256 32 9 2 (\<lambda>idx. 0, \<lambda>idx. beta j))
               = Inr (full [n, 1152, 1] (beta j))"
      by (rule net0_primary_convs[OF n])
  qed
  let ?U = "tgen [n, 1152, 8] (\<lambda>idx. beta (idx ! 2))"
  have "t_cat (map (\<lambda>j. Inr (full [n, 1152, 1] (beta j))) [0..<8]) (- 1)
        = Inr (tgen ([n, 1152] @ [8])
                (\<lambda>idx. elt (full [n, 1152, 1] (beta (idx ! length [n, 1152])))
                          (idx[length [n, 1152] := 0])))"
    by (rule t_cat_last) (simp_all add: shape_full)
  also have "tgen ([n, 1152] @ [8])
                (\<lambda>idx. elt (full [n, 1152, 1] (beta (idx ! length [n, 1152])))
                          (idx[length [n, 1152] := 0])) = ?U"
    by (simp, rule tgen_cong) (auto simp: valid3 elt_full)
  finally have cat: "t_cat (map (\<lambda>j. Inr (full [n, 1152, 1] (beta j))) [0..<8]) (- 1) = Inr ?U" .
  have sn: "sqnorm ?U 2 idx = 1" if "valid [n, 1152, 8] idx" for idx
  proof -
    from that obtain a b c where idx: "idx = [a, b, c]" "a < n" "b < 1152" "c < 8"
      by (auto simp: valid3)
    have "elt ?U (idx[2 := k]) = beta k" if "k < 8" for k
      using that idx by (simp add: elt_tgen valid3)
    then have "sqnorm ?U 2 idx = (\<Sum>k<8. (beta k)\<^sup>2)"
      by (simp add: sqnorm_def shape_tgen)
    then show ?thesis by (simp add: sum_beta)
  qed
  have "squash_vector (Inr ?U) (- 1)
        = Inr (tgen (shape ?U)
                 (\<lambda>idx. sqnorm ?U 2 idx / (1 + sqnorm ?U 2 idx) * elt ?U idx / sqrt (sqnorm ?U 2 idx)))"
    by (rule squash_vector_eq) (simp_all add: wf_tgen shape_tgen norm_dim_def sn)
  also have "tgen (shape ?U)
                 (\<lambda>idx. sqnorm ?U 2 idx / (1 + sqnorm ?U 2 idx) * elt ?U idx / sqrt (sqnorm ?U 2 idx))
             = tgen [n, 1152, 8] (\<lambda>idx. beta (idx ! 2) / 2)"
    unfolding shape_tgen by (rule tgen_cong) (simp add: sn elt_tgen)
  finally have sq: "squash_vector (Inr ?U) (- 1) = Inr (tgen [n, 1152, 8] (\<lambda>idx. beta (idx ! 2) / 2))" .
  have nr: "num_routes (primary_capsules net0) = - 1" by (simp add: net0_def)
  show ?thesis
    unfolding CapsuleLayer_forward_def nr cs option.case Let_def m cat sq by simp
qed

lemma net0_priors:
  "routing_priors (digit_capsules net0) (Inr (tgen [n, 1152, 8] (\<lambda>idx. beta (idx ! 2) / 2)))
   = Inr (full [10, n, 1152, 1, 16] 1152)"
proof -
  let ?X = "tgen [n, 1152, 8] (\<lambda>idx. beta (idx ! 2) / 2)"
  let ?W = "tgen [10, 1152, 8, 16] (\<lambda>idx. 2304)"
  have "routing_priors (digit_capsules net0) (Inr ?X)
        = Inr (tgen [10, n, 1152, 1, 16]
                 (\<lambda>idx. \<Sum>k<8. elt ?X [idx ! 1, idx ! 2, k] * elt ?W [idx ! 0, idx ! 2, k, idx ! 4]))"
    by (rule routing_priors_eq) (simp_all add: net0_def shape_tgen)
  also have "tgen [10, n, 1152, 1, 16]
                 (\<lambda>idx. \<Sum>k<8. elt ?X [idx ! 1, idx ! 2, k] * elt ?W [idx ! 0, idx ! 2, k, idx ! 4])
             = full [10, n, 1152, 1, 16] 1152"
  proof (rule tgen_const)
    fix idx assume "valid [10, n, 1152, 1, 16] idx"
    then obtain c b r p where idx: "idx = [c, b, r, 0, p]"
      and lt: "c < 10" "b < n" "r < 1152" "p < 16"
      by (auto simp: valid5)
    have "elt ?X [b, r, k] * elt ?W [c, r, k, p] = 1152 * beta k" if "k < 8" for k
      using that lt by (simp add: elt_tgen valid3 valid4)
    then have "(\<Sum>k<8. elt ?X [b, r, k] * elt ?W [c, r, k, p]) = (\<Sum>k<8. 1152 * beta k)"
      by (intro sum.cong) simp_all
    also have "\<dots> = 1152" unfolding sum_distrib_left[symmetric] sum_beta1 by simp
    finally show "(\<Sum>k<8. elt ?X [idx ! 1, idx ! 2, k] * elt ?W [idx ! 0, idx ! 2, k, idx ! 4]) = 1152"
      by (simp add: idx)
  qed
  finally show ?thesis .
qed

lemma routing_iteration_full:
  assumes s: "length s = 5" "0 < s ! 2" "0 < s ! 4" and p: "p \<noteq> 0"
    and lg: "st_logits st = Inr (full s c)"
  shows "st_outputs (routing_iteration self (Inr (full s p)) st i)
           = Some (Inr (full (s[2 := 1]) (real (s ! 2) * squash_const (s ! 4) (p / real (s ! 2)))))"
    and "\<exists>c'. st_logits (routing_iteration self (Inr (full s p)) st i) = Inr (full s c')"
proof -
  let ?R = "real (s ! 2)"
  let ?m = "p / ?R"
  let ?v = "?R * squash_const (s ! 4) ?m"
  have d2: "norm_dim (length s) 2 = Some 2" and d4: "norm_dim (length s) (- 1) = Some 4"
    using s(1) by (simp_all add: norm_dim_def)
  have m: "?m \<noteq> 0" using p s(2) by simp
  have 1: "softmax (Inr (full s c)) 2 = Inr (full s (1 / ?R))"
    by (rule softmax_full[OF d2 s(2)])
  have 2: "t_mul (Inr (full s (1 / ?R))) (Inr (full s p)) = Inr (full s ?m)"
    unfolding t_mul_def t_bin_full_same by simp
  have 3: "squash_vector (Inr (full s ?m)) (- 1) = Inr (full s (squash_const (s ! 4) ?m))"
    unfolding squash_const_def by (rule squash_vector_full[OF d4 s(3) m])
  have 4: "t_sum (Inr (full s (squash_const (s ! 4) ?m))) 2 True = Inr (full (s[2 := 1]) ?v)"
    by (rule t_sum_full_keep[OF d2])
  have 5: "t_mul (Inr (full s p)) (Inr (full (s[2 := 1]) ?v)) = Inr (full s (p * ?v))"
    unfolding t_mul_def by (rule t_bin_full_right)
  have 6: "t_sum (Inr (full s (p * ?v))) (- 1) True
           = Inr (full (s[4 := 1]) (real (s ! 4) * (p * ?v)))"
    by (rule t_sum_full_keep[OF d4])
  have 7: "t_add (Inr (full s c)) (Inr (full (s[4 := 1]) (real (s ! 4) * (p * ?v))))
           = Inr (full s (c + real (s ! 4) * (p * ?v)))"
    unfolding t_add_def by (rule t_bin_full_right)
  show "st_outputs (routing_iteration self (Inr (full s p)) st i) = Some (Inr (full (s[2 := 1]) ?v))"
    unfolding routing_iteration_def Let_def lg 1 2 3 4 5 6 7 by simp
  show "\<exists>c'. st_logits (routing_iteration self (Inr (full s p)) st i) = Inr (full s c')"
    unfolding routing_iteration_def Let_def lg 1 2 3 4 5 6 7 by auto
qed

lemma routing_loop_full:
  assumes s: "length s = 5" "0 < s ! 2" "0 < s ! 4" and p: "p \<noteq> 0"
  shows "st_logits st = Inr (full s c) \<Longrightarrow> js \<noteq> [] \<Longrightarrow>
         st_outputs (routing_loop self (Inr (full s p)) st js)
           = Some (Inr (full (s[2 := 1]) (real (s ! 2) * squash_const (s ! 4) (p / real (s ! 2)))))
         \<and> (\<exists>c'. st_logits (routing_loop self (Inr (full s p)) st js) = Inr (full s c'))"
proof (induction js arbitrary: st c)
  case Nil
  then show ?case by simp
next
  case (Cons i js)
  let ?st = "routing_iteration self (Inr (full s p)) st i"
  have out: "st_outputs ?st
           = Some (Inr (full (s[2 := 1]) (real (s ! 2) * squash_const (s ! 4) (p / real (s ! 2)))))"
    by (rule routing_iteration_full(1)[OF s p Cons.prems(1)])
  obtain c' where c': "st_logits ?st = Inr (full s c')"
    using routing_iteration_full(2)[OF s p Cons.prems(1)] by blast
  have nr: "\<not> raised ?st" by (simp add: raised_def out c')
  have eq: "routing_loop self (Inr (full s p)) st (i # js) = routing_loop self (Inr (full s p)) ?st js"
    using nr by (simp add: Let_def)
  show ?case
  proof (cases "js = []")
    case True
    then show ?thesis unfolding eq using out c' by auto
  next
    case False
    then show ?thesis unfolding eq using Cons.IH[OF c' False] by simp
  qed
qed

lemma CapsuleLayer_forward_full:
  assumes pr: "routing_priors self x = Inr (full s p)"
    and s: "length s = 5" "0 < s ! 2" "0 < s ! 4" and p: "p \<noteq> 0"
    and n: "0 < num_iterations self" "num_routes self \<noteq> - 1"
  shows "CapsuleLayer_forward self x
         = Inr (full (s[2 := 1]) (real (s ! 2) * squash_const (s ! 4) (p / real (s ! 2))))"
proof -
  let ?st0 = "routing_start (Inr (full s p))"
  have lg0: "st_logits ?st0 = Inr (full s 0)"
    by (simp add: routing_start_def t_zeros_def full_def shape_tgen)
  have nr0: "\<not> raised ?st0" by (simp add: raised_def lg0) (simp add: routing_start_def)
  have ne: "range (num_iterations self) \<noteq> []" using n(1) by (simp add: range_def)
  have rt: "routing self x = routing_loop self (Inr (full s p)) ?st0 (range (num_iterations self))"
    unfolding routing_def Let_def pr using nr0 by simp
  obtain c' where
    out: "st_outputs (routing self x)
          = Some (Inr (full (s[2 := 1]) (real (s ! 2) * squash_const (s ! 4) (p / real (s ! 2)))))"
    and lg: "st_logits (routing self x) = Inr (full s c')"
    unfolding rt using routing_loop_full[OF s p lg0 ne, of self] by blast
  show ?thesis
    unfolding CapsuleLayer_forward_def Let_def using n(2) by (simp add: out lg)
qed

lemma squash_const_16_1: "squash_const 16 1 = 4 / 17"
  by (simp add: squash_const_def)

lemma net0_digit_caps:
  assumes "0 < n"
  shows "digit_caps_output net0 (Inr (black n)) = Inr (full [10, n, 1, 1, 16] (4608 / 17))"
proof -
  have "CapsuleLayer_forward (digit_capsules net0)
          (Inr (tgen [n, 1152, 8] (\<lambda>idx. beta (idx ! 2) / 2)))
        = Inr (full ([10, n, 1152, 1, 16][2 := 1])
                 (real ([10, n, 1152, 1, 16] ! 2)
                  * squash_const ([10, n, 1152, 1, 16] ! 4) (1152 / real ([10, n, 1152, 1, 16] ! 2))))"
    by (rule CapsuleLayer_forward_full[OF net0_priors]) (simp_all add: net0_def)
  then have "CapsuleLayer_forward (digit_capsules net0)
          (Inr (tgen [n, 1152, 8] (\<lambda>idx. beta (idx ! 2) / 2)))
        = Inr (full [10, n, 1, 1, 16] (4608 / 17))"
    by (simp add: squash_const_16_1)
  then show ?thesis
    unfolding digit_caps_output_def Let_def net0_conv1 net0_primary[OF assms] .
qed

lemma Sequential_Inl: "Sequential ms (Inl e) = Inl e"
proof -
  have "foldl (\<lambda>v m. run_module m v) (Inl e) ms = Inl e"
  proof (induction ms)
    case Nil
    then show ?case by simp
  next
    case (Cons m ms)
    have "run_module m (Inl e) = Inl e" by (cases m) (simp_all add: relu_def)
    then show ?case using Cons by simp
  qed
  then show ?thesis by (simp add: Sequential_def)
qed

lemma sigmoid_0: "sigmoid 0 = 1 / 2"
  by (simp add: sigmoid_def)

lemma net0_decoder:
  assumes "shape z = [n, 160]"
  shows "Sequential (decoder net0) (Inr z) = Inr (full [n, 784] (1 / 2))"
proof -
  have 1: "linear (new_Linear 160 512 (\<lambda>idx. 0, \<lambda>idx. 0)) (Inr z) = Inr (full ([n] @ [512]) 0)"
    by (rule linear_zero_weight[where i = 160]) (simp_all add: assms new_Linear_const)
  have 2: "linear (new_Linear 512 1024 (\<lambda>idx. 0, \<lambda>idx. 0)) (Inr (full ([n] @ [512]) 0))
           = Inr (full ([n] @ [1024]) 0)"
    by (rule linear_zero_weight[where i = 512]) (simp_all add: shape_full new_Linear_const)
  have 3: "linear (new_Linear 1024 784 (\<lambda>idx. 0, \<lambda>idx. 0)) (Inr (full ([n] @ [1024]) 0))
           = Inr (full ([n] @ [784]) 0)"
    by (rule linear_zero_weight[where i = 1024]) (simp_all add: shape_full new_Linear_const)
  have r1: "relu (Inr (full ([n] @ [512]) 0)) = Inr (full ([n] @ [512]) 0)"
    and r2: "relu (Inr (full ([n] @ [1024]) 0)) = Inr (full ([n] @ [1024]) 0)"
    by (simp_all add: relu_full)
  have sg: "t_map sigmoid (Inr (full ([n] @ [784]) 0)) = Inr (full [n, 784] (1 / 2))"
    by (simp add: tmap_full sigmoid_0)
  show ?thesis
    unfolding Sequential_def net0_def CapsuleNet.simps foldl.simps run_module.simps 1 r1 2 r2 3 sg ..
qed

lemma net0_x:
  assumes "2 \<le> n"
  shows "t_transpose (t_squeeze (Inr (full [10, n, 1, 1, 16] v))) 0 1 = Inr (full [n, 10, 16] v)"
proof -
  have "t_squeeze (Inr (full [10, n, 1, 1, 16] v)) = Inr (full [10, n, 16] v)"
    using assms by (simp add: full_replicate)
  moreover have "t_transpose (Inr (full [10, n, 16] v)) 0 1
                 = Inr (full ([10, n, 16][0 := [10, n, 16] ! 1, 1 := [10, n, 16] ! 0]) v)"
    by (rule t_transpose_full) (simp_all add: norm_dim_def)
  ultimately show ?thesis by simp
qed

lemma net0_classes:
  "F_softmax (t_pow_half (t_sum (t_pow (Inr (full [n, 10, 16] v)) 2) (- 1) False))
   = Inr (full [n, 10] (1 / 10))"
proof -
  have "t_sum (Inr (full [n, 10, 16] (v ^ 2))) (- 1) False
        = Inr (full (take 2 [n, 10, 16] @ drop (Suc 2) [n, 10, 16]) (real ([n, 10, 16] ! 2) * v ^ 2))"
    by (rule t_sum_full_drop) (simp add: norm_dim_def)
  then have s: "t_sum (Inr (full [n, 10, 16] (v ^ 2))) (- 1) False = Inr (full [n, 10] (16 * v ^ 2))"
    by (simp del: t_sum.simps)
  have h: "t_pow_half (Inr (full [n, 10] (16 * v ^ 2))) = Inr (full [n, 10] (sqrt (16 * v ^ 2)))"
    unfolding t_pow_half_def by (rule t_sqrt_full) simp
  show ?thesis
    unfolding t_pow_full s h using F_softmax_full2[of 10 n] by (simp del: F_softmax.simps)
qed

lemma net0_tail:
  assumes y: "shape y = [n, 10]" and n: "0 < n"
  shows "Sequential (decoder net0)
           (case t_size (Inr (full [n, 10, 16] v)) 0 of
              Inl e \<Rightarrow> Inl e
            | Inr m \<Rightarrow> t_view (t_mul (Inr (full [n, 10, 16] v)) (t_index (Inr y) [All, All, NewAxis]))
                              [int m, - 1])
         = Inr (full [n, 784] (1 / 2))"
proof -
  let ?y3 = "\<lparr>shape = [n, 10, 1], data = data y\<rparr>"
  have iy: "t_index (Inr y) [All, All, NewAxis] = Inr ?y3" using y by simp
  have b: "bshape [n, 10, 16] [n, 10, Suc 0] = Some [n, 10, 16]"
    using bshape_upd_right[of "[n, 10, 16]" 2] by simp
  obtain G where mul: "t_mul (Inr (full [n, 10, 16] v)) (Inr ?y3) = Inr (tgen [n, 10, 16] G)"
    by (simp add: t_mul_def shape_full b)
  have vs: "view_shape (prod_list [n, 10, 16]) [int n, - 1] = Some [n, 160]"
    using n by (simp add: view_shape_def)
  obtain z where z: "t_view (Inr (tgen [n, 10, 16] G)) [int n, - 1] = Inr z" "shape z = [n, 160]"
    unfolding t_view.simps shape_tgen vs by simp
  have sz: "t_size (Inr (full [n, 10, 16] v)) 0 = Inr n" by (simp add: shape_full)
  show ?thesis
    unfolding iy mul sz sum.case z(1) by (rule net0_decoder[OF z(2)])
qed

lemma net0_forward_given:
  assumes "2 \<le> n" "shape y = [n, 10]"
  shows "CapsuleNet_forward net0 (Inr (black n)) (Some (Inr y))
         = Inr (full [n, 10] (1 / 10), full [n, 784] (1 / 2))"
proof -
  have n: "0 < n" using assms(1) by simp
  have dc: "CapsuleLayer_forward (digit_capsules net0)
              (CapsuleLayer_forward (primary_capsules net0)
                 (relu (conv2d (conv1 net0) (Inr (black n)))))
            = Inr (full [10, n, 1, 1, 16] (4608 / 17))"
    using net0_digit_caps[OF n] by (simp add: digit_caps_output_def Let_def)
  show ?thesis
    unfolding CapsuleNet_forward_def Let_def dc net0_x[OF assms(1)] net0_classes option.case
      net0_tail[OF assms(2) n]
    by simp
qed

lemma net0_x_single:
  "t_transpose (t_squeeze (Inr (full [10, 1, 1, 1, 16] v))) 0 1 = Inr (full [16, 10] v)"
proof -
  have "t_squeeze (Inr (full [10, 1, 1, 1, 16] v)) = Inr (full [10, 16] v)"
    by (simp add: full_replicate)
  moreover have "t_transpose (Inr (full [10, 16] v)) 0 1
                 = Inr (full ([10, 16][0 := [10, 16] ! 1, 1 := [10, 16] ! 0]) v)"
    by (rule t_transpose_full) (simp_all add: norm_dim_def)
  ultimately show ?thesis by simp
qed

lemma net0_classes_single:
  "F_softmax (t_pow_half (t_sum (t_pow (Inr (full [16, 10] v)) 2) (- 1) False))
   = Inr (full [16] (1 / 16))"
proof -
  have "t_sum (Inr (full [16, 10] (v ^ 2))) (- 1) False
        = Inr (full (take 1 [16, 10] @ drop (Suc 1) [16, 10]) (real ([16, 10] ! 1) * v ^ 2))"
    by (rule t_sum_full_drop) (simp add: norm_dim_def)
  then have s: "t_sum (Inr (full [16, 10] (v ^ 2))) (- 1) False = Inr (full [16] (10 * v ^ 2))"
    by (simp del: t_sum.simps)
  have h: "t_pow_half (Inr (full [16] (10 * v ^ 2))) = Inr (full [16] (sqrt (10 * v ^ 2)))"
    unfolding t_pow_half_def by (rule t_sqrt_full) simp
  have "softmax_along (full [16] c) 0 = full [16] (1 / 16)" for c
  proof -
    have "tgen [16] (\<lambda>idx. exp (elt (full [16] c) idx)
                        / sum_list (map (\<lambda>k. exp (elt (full [16] c) (idx[0 := k]))) [0..<16]))
          = full [16] (1 / 16)"
    proof (rule tgen_const)
      fix idx assume v: "valid [16] idx"
      have "elt (full [16] c) (idx[0 := k]) = c" if "k < 16" for k
        using valid_upd_k[OF v, of k 0] that by (simp add: elt_full)
      then have "sum_list (map (\<lambda>k. exp (elt (full [16] c) (idx[0 := k]))) [0..<16])
                 = 16 * exp c"
        by (simp add: sum_list_upt)
      then show "exp (elt (full [16] c) idx)
                 / sum_list (map (\<lambda>k. exp (elt (full [16] c) (idx[0 := k]))) [0..<16])
                 = 1 / 16"
        using v by (simp add: elt_full)
    qed
    then show ?thesis by (simp add: softmax_along_def shape_full)
  qed
  then show ?thesis
    unfolding t_pow_full s h by (simp add: shape_full)
qed

lemma bshape_single: "bshape [16, 10] [1, 10, 1] = None"
  by (simp add: bshape_def)

lemma net0_single_dc:
  "CapsuleLayer_forward (digit_capsules net0)
     (CapsuleLayer_forward (primary_capsules net0)
        (relu (conv2d (conv1 net0) (Inr (black 1)))))
   = Inr (full [10, 1, 1, 1, 16] (4608 / 17))"
  using net0_digit_caps[of 1] by (simp add: digit_caps_output_def Let_def)

lemma net0_forward_single_given:
  assumes "shape y = [1, 10]"
  shows "CapsuleNet_forward net0 (Inr (black 1)) (Some (Inr y)) = Inl RuntimeError"
proof -
  have iy: "t_index (Inr y) [All, All, NewAxis] = Inr \<lparr>shape = [1, 10, 1], data = data y\<rparr>"
    using assms by simp
  have mul: "t_mul (Inr (full [16, 10] v)) (Inr \<lparr>shape = [1, 10, 1], data = data y\<rparr>)
             = Inl RuntimeError" for v
    by (simp add: t_mul_def shape_full bshape_single del: One_nat_def)
  have sz: "t_size (Inr (full [16, 10] v)) 0 = Inr 16" for v by (simp add: shape_full)
  show ?thesis
    unfolding CapsuleNet_forward_def Let_def net0_single_dc net0_x_single net0_classes_single
      option.case iy mul sz sum.case t_view.simps Sequential_Inl pair_res.simps ..
qed

lemma net0_forward_single_omitted:
  "CapsuleNet_forward net0 (Inr (black 1)) None = Inl RuntimeError"
proof -
  have mx: "t_max_indices (Inr (full [16] c)) 1 False = Inl RuntimeError" for c
    by (simp add: shape_full norm_dim_def)
  have sel: "t_index_select0 (t_eye 10) (Inl RuntimeError) = Inl RuntimeError"
    by (simp add: t_eye_def)
  have mul: "t_mul a (Inl RuntimeError) = Inl RuntimeError" if "a = Inr t" for a t
    using that by (simp add: t_mul_def)
  have sz: "t_size (Inr (full [16, 10] v)) 0 = Inr 16" for v by (simp add: shape_full)
  show ?thesis
    unfolding CapsuleNet_forward_def Let_def net0_single_dc net0_x_single net0_classes_single
      option.case mx sel t_index.simps mul[OF refl] sz sum.case t_view.simps Sequential_Inl
      pair_res.simps ..
qed

section \<open>Facts about the network\<close>

lemma tmap_tgen: "tmap g (tgen s f) = tgen s (\<lambda>idx. g (f idx))"
  by (simp add: tmap_def tgen_def)

lemma classes_of_digit_caps:
  assumes d: "shape d = [10, n, 1, 1, 16]" and n: "2 \<le> n"
  shows "F_softmax (t_pow_half (t_sum (t_pow (t_transpose (t_squeeze (Inr d)) 0 1) 2) (- 1) False))
         = Inr (softmax_along (capsule_lengths d n) 1)"
    and "\<exists>x. t_transpose (t_squeeze (Inr d)) 0 1 = Inr x \<and> shape x = [n, 10, 16]"
proof -
  let ?q = "\<lparr>shape = [10, n, 16], data = data d\<rparr>"
  have sq: "t_squeeze (Inr d) = Inr ?q" using d n by simp
  let ?X = "tgen [n, 10, 16] (\<lambda>idx. elt ?q (idx[0 := idx ! 1, 1 := idx ! 0]))"
  have tr: "t_transpose (Inr ?q) 0 1 = Inr ?X"
    by (simp add: norm_dim_def)
  show "\<exists>x. t_transpose (t_squeeze (Inr d)) 0 1 = Inr x \<and> shape x = [n, 10, 16]"
    unfolding sq tr by (simp add: shape_tgen)
  have eX: "elt ?X [b, c, k] = elt d [c, b, 0, 0, k]" if "b < n" "c < 10" "k < 16" for b c k
    using that d by (simp add: elt_tgen valid3) (simp add: elt_def)
  let ?S = "tgen [n, 10] (\<lambda>idx. \<Sum>k<16. (elt d [idx ! 1, idx ! 0, 0, 0, k])\<^sup>2)"
  have pw: "t_pow (Inr ?X) 2 = Inr (tmap (\<lambda>x. x ^ 2) ?X)" by (simp add: t_pow_def)
  have "t_sum (Inr (tmap (\<lambda>x. x ^ 2) ?X)) (- 1) False
        = Inr (tgen [n, 10] (\<lambda>idx. sum_list (map (\<lambda>k. elt (tmap (\<lambda>x. x ^ 2) ?X)
                                                  (take 2 idx @ k # drop 2 idx)) [0..<16])))"
    by (simp add: norm_dim_def shape_tmap shape_tgen)
  also have "tgen [n, 10] (\<lambda>idx. sum_list (map (\<lambda>k. elt (tmap (\<lambda>x. x ^ 2) ?X)
                                                  (take 2 idx @ k # drop 2 idx)) [0..<16])) = ?S"
  proof (rule tgen_cong)
    fix idx assume "valid [n, 10] idx"
    then obtain b c where idx: "idx = [b, c]" and lt: "b < n" "c < 10" by (auto simp: valid2)
    have "elt (tmap (\<lambda>x. x ^ 2) ?X) [b, c, k] = (elt d [c, b, 0, 0, k])\<^sup>2" if "k < 16" for k
      using that lt eX[OF lt that] by (simp add: elt_tmap wf_tgen shape_tgen valid3)
    then show "sum_list (map (\<lambda>k. elt (tmap (\<lambda>x. x ^ 2) ?X) (take 2 idx @ k # drop 2 idx)) [0..<16])
               = (\<Sum>k<16. (elt d [idx ! 1, idx ! 0, 0, 0, k])\<^sup>2)"
      by (simp add: idx sum_list_upt)
  qed
  finally have sm: "t_sum (Inr (tmap (\<lambda>x. x ^ 2) ?X)) (- 1) False = Inr ?S" .
  have "t_sqrt (Inr ?S) = Inr (tmap sqrt ?S)"
    by (rule t_sqrt_Inr) (simp_all add: wf_tgen shape_tgen elt_tgen sum_nonneg)
  also have "tmap sqrt ?S = capsule_lengths d n"
    by (simp add: tmap_tgen capsule_lengths_def capsule_length_def)
  finally have hf: "t_pow_half (Inr ?S) = Inr (capsule_lengths d n)"
    by (simp add: t_pow_half_def)
  have fs: "F_softmax (Inr (capsule_lengths d n)) = Inr (softmax_along (capsule_lengths d n) 1)"
    by (simp add: capsule_lengths_def shape_tgen)
  show "F_softmax (t_pow_half (t_sum (t_pow (t_transpose (t_squeeze (Inr d)) 0 1) 2) (- 1) False))
         = Inr (softmax_along (capsule_lengths d n) 1)"
    unfolding sq tr pw sm hf fs ..
qed

lemma conv2d_ok:
  assumes "is_conv c ci co k s" "0 < s" "shape x = [n, ci, h, w]" "k \<le> h" "k \<le> w"
  shows "\<exists>t. conv2d c (Inr x) = Inr t \<and> wf_ten t
             \<and> shape t = [n, co, (h - k) div s + 1, (w - k) div s + 1]"
  using assms by (simp add: is_conv_def wf_tgen shape_tgen)

lemma primary_view_ok:
  assumes c: "is_conv c 256 32 9 2" and x: "shape x = [n, 256, 20, 20]" and n: "0 < n"
  shows "\<exists>u. (case t_size (Inr x) 0 of
                 Inl e \<Rightarrow> Inl e
               | Inr m \<Rightarrow> t_view (conv2d c (Inr x)) [int m, - 1, 1]) = Inr u
             \<and> shape u = [n, 1152, 1]"
proof -
  obtain t where t: "conv2d c (Inr x) = Inr t" "shape t = [n, 32, (20 - 9) div 2 + 1, (20 - 9) div 2 + 1]"
    using conv2d_ok[OF c _ x] by auto
  have vs: "view_shape (prod_list (shape t)) [int n, - 1, 1] = Some [n, 1152, 1]"
    using n t(2) by (simp add: view_shape_def)
  show ?thesis
    unfolding t(1) using x vs by simp
qed

lemma map_index: "map g cs = map (\<lambda>j. g (cs ! j)) [0..<length cs]"
  by (rule nth_equalityI) simp_all

lemma primary_ok:
  assumes nr: "num_routes layer = - 1"
    and cs: "capsules layer = Some cs" "length cs = 8" "list_all (\<lambda>c. is_conv c 256 32 9 2) cs"
    and x: "shape x = [n, 256, 20, 20]" and n: "0 < n"
  shows "okv [n, 1152, 8] (CapsuleLayer_forward layer (Inr x))"
proof -
  let ?g = "\<lambda>capsule. case t_size (Inr x) 0 of
                        Inl e \<Rightarrow> Inl e
                      | Inr m \<Rightarrow> t_view (conv2d capsule (Inr x)) [int m, - 1, 1]"
  have "\<forall>j<8. \<exists>u. ?g (cs ! j) = Inr u \<and> shape u = [n, 1152, 1]"
  proof (intro allI impI)
    fix j :: nat assume j: "j < 8"
    then have "is_conv (cs ! j) 256 32 9 2" using cs(2,3) by (simp add: list_all_length)
    then show "\<exists>u. ?g (cs ! j) = Inr u \<and> shape u = [n, 1152, 1]"
      by (rule primary_view_ok[OF _ x n])
  qed
  then obtain V where V: "\<And>j. j < 8 \<Longrightarrow> ?g (cs ! j) = Inr (V j) \<and> shape (V j) = [n, 1152, 1]"
    by metis
  have "map ?g cs = map (\<lambda>j. ?g (cs ! j)) [0..<8]"
    using map_index[of ?g cs] cs(2) by simp
  also have "\<dots> = map (\<lambda>j. Inr (V j)) [0..<8]"
  proof (rule map_cong[OF refl])
    fix j :: nat assume "j \<in> set [0..<8]"
    then have "j < 8" by simp
    then show "?g (cs ! j) = Inr (V j)" using V by blast
  qed
  finally have m: "map ?g cs = map (\<lambda>j. Inr (V j)) [0..<8]" .
  have cat: "t_cat (map (\<lambda>j. Inr (V j)) [0..<8]) (- 1)
        = Inr (tgen ([n, 1152] @ [8]) (\<lambda>idx. elt (V (idx ! length [n, 1152])) (idx[length [n, 1152] := 0])))"
    by (rule t_cat_last) (simp_all add: V)
  have "okv ([n, 1152] @ [8]) (squash_vector (t_cat (map (\<lambda>j. Inr (V j)) [0..<8]) (- 1)) (- 1))"
    unfolding cat by (rule okv_squash_vector[where d = 2]) (simp_all add: okv_def wf_tgen shape_tgen norm_dim_def)
  then show ?thesis
    unfolding CapsuleLayer_forward_def nr cs(1) option.case Let_def m by simp
qed

lemma routing_priors_Inl:
  "route_weights self = Some rw \<Longrightarrow> routing_priors self (Inl e) = Inl e"
  by (simp add: routing_priors_def)

lemma digit_ok:
  assumes nr: "num_routes self = int R" "0 < R" and it: "0 < num_iterations self"
    and rw: "route_weights self = Some rw" "shape rw = [C, R, K, M]"
    and x: "okv [B, R, K] x"
  shows "okv [C, B, 1, 1, M] (CapsuleLayer_forward self x)"
proof -
  let ?s = "[C, B, R, 1, M]"
  let ?priors = "routing_priors self x"
  let ?st0 = "routing_start ?priors"
  have p: "okv ?s ?priors"
  proof (cases x)
    case (Inl e)
    then show ?thesis using x rw(1) by (simp add: routing_priors_Inl okv_def)
  next
    case (Inr t)
    then have t: "shape t = [B, R, K]" using x by (simp add: okv_def)
    show ?thesis
      unfolding Inr routing_priors_eq[OF rw t] by (simp add: okv_def wf_tgen shape_tgen)
  qed
  have ok0: "okv ?s (st_logits ?st0)"
    using p by (cases ?priors) (simp_all add: routing_start_def okv_def t_zeros_def wf_tgen shape_tgen)
  have nr0: "\<not> raised ?st0"
    using okv_not_raise[OF ok0] by (simp add: raised_def routing_start_def)
  have rt: "routing self x = routing_loop self ?priors ?st0 (range (num_iterations self))"
    using nr0 by (simp add: routing_def Let_def)
  have ne: "range (num_iterations self) \<noteq> []" using it by (simp add: range_def)
  obtain out where lg: "okv ?s (st_logits (routing self x))"
    and out: "st_outputs (routing self x) = Some out" "okv (?s[2 := 1]) out"
    using routing_loop_ok[OF p _ _ ok0, of self "range (num_iterations self)"] nr(2) ne
    unfolding rt by auto
  show ?thesis
    using okv_not_raise[OF lg] nr out by (simp add: CapsuleLayer_forward_def Let_def)
qed

lemma digit_caps_output_ok:
  assumes top: "CapsNet_topology self" and x: "shape x = [n, 1, 28, 28]" and n: "0 < n"
  shows "okv [10, n, 1, 1, 16] (digit_caps_output self (Inr x))"
proof -
  from top obtain cs rw where
    c1: "is_conv (conv1 self) 1 256 9 1"
    and pr: "num_routes (primary_capsules self) = - 1" "capsules (primary_capsules self) = Some cs"
      "length cs = 8" "list_all (\<lambda>c. is_conv c 256 32 9 2) cs"
    and dg: "num_routes (digit_capsules self) = 1152" "num_iterations (digit_capsules self) = 3"
      "route_weights (digit_capsules self) = Some rw" "shape rw = [10, 1152, 8, 16]"
    by (auto simp: CapsNet_topology_def split: option.splits)
  obtain t where t: "conv2d (conv1 self) (Inr x) = Inr t"
    "shape t = [n, 256, (28 - 9) div 1 + 1, (28 - 9) div 1 + 1]"
    using conv2d_ok[OF c1 _ x] by auto
  have r: "relu (Inr t) = Inr (tmap (\<lambda>x. max 0 x) t)" by (simp add: relu_def)
  have sh: "shape (tmap (\<lambda>x. max 0 x) t) = [n, 256, 20, 20]" using t(2) by (simp add: shape_tmap)
  have p: "okv [n, 1152, 8] (CapsuleLayer_forward (primary_capsules self) (Inr (tmap (\<lambda>x. max 0 x) t)))"
    by (rule primary_ok[OF pr sh n])
  have "okv [10, n, 1, 1, 16]
          (CapsuleLayer_forward (digit_capsules self)
             (CapsuleLayer_forward (primary_capsules self) (Inr (tmap (\<lambda>x. max 0 x) t))))"
    by (rule digit_ok[where R = 1152 and K = 8, OF _ _ _ dg(3,4) p]) (simp_all add: dg)
  then show ?thesis unfolding digit_caps_output_def Let_def t(1) r .
qed

lemma forward_digit_Inl:
  assumes "digit_caps_output self x = Inl e"
  shows "CapsuleNet_forward self x y = Inl e"
proof -
  have dc: "CapsuleLayer_forward (digit_capsules self)
              (CapsuleLayer_forward (primary_capsules self) (relu (conv2d (conv1 self) x))) = Inl e"
    using assms by (simp add: digit_caps_output_def Let_def)
  show ?thesis
    unfolding CapsuleNet_forward_def Let_def dc
    by (simp add: t_pow_def t_pow_half_def)
qed

lemma pair_res_Inr: "pair_res a b = Inr (c, r) \<longleftrightarrow> a = Inr c \<and> b = Inr r"
  by (cases a; cases b) auto

lemma forward_classes:
  assumes "CapsuleNet_forward self x y = Inr (classes, reconstructions)"
  shows "F_softmax (t_pow_half (t_sum (t_pow (t_transpose (t_squeeze (digit_caps_output self x)) 0 1) 2)
                                      (- 1) False)) = Inr classes"
  using assms unfolding CapsuleNet_forward_def digit_caps_output_def Let_def pair_res_Inr by blast

lemma elt_softmax_along2:
  assumes "b < n" "c < m"
  shows "elt (softmax_along (tgen [n, m] f) 1) [b, c] = exp (f [b, c]) / (\<Sum>j<m. exp (f [b, j]))"
proof -
  have v: "valid [n, m] [b, c]" using assms by (simp add: valid2)
  have "elt (tgen [n, m] f) ([b, c][1 := j]) = f [b, j]" if "j < m" for j
    using that assms by (simp add: elt_tgen valid2)
  then have "sum_list (map (\<lambda>k. exp (elt (tgen [n, m] f) ([b, c][1 := k]))) [0..<m])
             = (\<Sum>j<m. exp (f [b, j]))"
    by (simp add: sum_list_upt)
  then show ?thesis
    using v by (simp add: softmax_along_def shape_tgen elt_tgen)
qed

lemma net0_topology: "CapsNet_topology net0"
  by (simp add: CapsNet_topology_def net0_def is_conv_def new_Conv2d_def
      new_Linear_def shape_tgen list_all_iff)

lemma capsule_length_full:
  "b < n \<Longrightarrow> c < 10 \<Longrightarrow> 0 \<le> v \<Longrightarrow> capsule_length (full [10, n, 1, 1, 16] v) b c = 4 * v"
proof -
  assume a: "b < n" "c < 10" "0 \<le> v"
  have "elt (full [10, n, 1, 1, 16] v) [c, b, 0, 0, k] = v" if "k < 16" for k
    using that a by (simp add: elt_full valid5)
  then have "(\<Sum>k<16. (elt (full [10, n, 1, 1, 16] v) [c, b, 0, 0, k])\<^sup>2) = 16 * v\<^sup>2"
    by simp
  moreover have "sqrt (16 * v\<^sup>2) = 4 * v"
    using a(3) by (simp add: real_sqrt_mult)
  ultimately show ?thesis by (simp add: capsule_length_def)
qed

lemma new_CapsuleNet_topology: "\<exists>net. new_CapsuleNet iv = Inr net \<and> CapsNet_topology net"
  by (simp add: new_CapsuleNet_def new_CapsuleLayer_def CapsNet_topology_def is_conv_def
      new_Conv2d_def new_Linear_def shape_tgen list_all_iff)

lemma sigmoid_range: "0 \<le> sigmoid v \<and> sigmoid v \<le> 1"
proof -
  have p: "0 < 1 + exp (- v)" by (simp add: add_pos_pos)
  have "1 / (1 + exp (- v)) \<le> 1" using p by (simp add: divide_le_eq_1)
  moreover have "0 \<le> 1 / (1 + exp (- v))" using p by simp
  ultimately show ?thesis by (simp add: sigmoid_def)
qed

lemma t_map_sigmoid_range:
  assumes "t_map sigmoid w = Inr r"
  shows "\<forall>v\<in>set (data r). 0 \<le> v \<and> v \<le> 1"
proof (cases w)
  case (Inl e)
  then show ?thesis using assms by simp
next
  case (Inr t)
  then have "r = tmap sigmoid t" using assms by simp
  then show ?thesis using sigmoid_range by (auto simp: tmap_def)
qed

lemma Sequential_snoc: "Sequential (ms @ [m]) x = run_module m (Sequential ms x)"
  by (simp add: Sequential_def)

lemma decoder_range:
  assumes top: "CapsNet_topology self" and r: "Sequential (decoder self) z = Inr r"
  shows "\<forall>v\<in>set (data r). 0 \<le> v \<and> v \<le> 1"
proof -
  from top have "map kind_of (decoder self)
        = [Linear_layer 160 512, ReLU_layer, Linear_layer 512 1024, ReLU_layer,
           Linear_layer 1024 784] @ [Sigmoid_layer]"
    by (simp add: CapsNet_topology_def)
  then obtain ms m where d: "decoder self = ms @ [m]" and k: "kind_of m = Sigmoid_layer"
    unfolding map_eq_append_conv by auto
  have m: "m = Sigmoid" using k by (cases m) (auto split: list.splits if_splits)
  have "Sequential (decoder self) z = t_map sigmoid (Sequential ms z)"
    unfolding d m by (simp only: Sequential_snoc run_module.simps)
  then show ?thesis using r t_map_sigmoid_range by metis
qed

section \<open>Facts about the run\<close>

declare chunks.simps [simp del]

lemma chunks_replicate: "0 < n \<Longrightarrow> chunks n (replicate (n * k) x) = replicate k (replicate n x)"
proof (induction k)
  case 0 show ?case by (simp add: chunks.simps)
next
  case (Suc k)
  have "chunks n (replicate (n * Suc k) x)
        = take n (replicate (n * Suc k) x) # chunks n (drop n (replicate (n * Suc k) x))"
    using Suc.prems by (subst chunks.simps) simp
  also have "take n (replicate (n * Suc k) x) = replicate n x" by simp
  also have "drop n (replicate (n * Suc k) x) = replicate (n * k) x" by simp
  finally show ?case using Suc by simp
qed

lemma concat_replicate_replicate: "concat (replicate n (replicate m x)) = replicate (n * m) x"
  by (induction n) (simp_all add: replicate_add)

lemma collate_black: "collate (replicate 8 (full [1, 28, 28] 0, 0)) = batch8"
proof -
  have d: "concat (map (\<lambda>s. data (fst s)) (replicate 8 (full [1, 28, 28] 0, 0::nat)))
           = replicate (8 * 784) (0::real)"
    by (simp only: map_replicate fst_conv full_replicate ten.simps concat_replicate_replicate)
       simp
  have h: "hd (replicate 8 (full [1, 28, 28] 0, 0::nat)) = (full [1, 28, 28] 0, 0)"
    by (simp add: hd_replicate)
  show ?thesis
    unfolding collate_def batch8_def black_def h d
    by (simp add: full_replicate list_all_iff)
qed

lemma one_hot_batch8: "index_to_one_hot (Inr (snd batch8)) 10 = Inr (zeros_hot 8)"
proof -
  let ?eye = "tgen [10, 10] (\<lambda>idx. if idx ! 0 = idx ! 1 then 1 else (0::real))"
  let ?ix = "\<lparr>lshape = [8], ldata = replicate 8 (0::nat)\<rparr>"
  have e: "tgen [8, 10] (\<lambda>idx. elt ?eye ((replicate 8 (0::nat) ! hd idx) # tl idx))
        = tgen [8, 10] (\<lambda>idx. if idx ! 1 = 0 then 1 else 0)"
  proof (rule tgen_cong)
    fix idx assume v: "valid [8, 10] idx"
    then obtain i j where idx: "idx = [i, j]" and i: "i < 8" and j: "j < 10"
      unfolding valid2 by auto
    have v': "valid [10, 10] [0, j]" using j by (simp add: valid2)
    have r: "replicate 8 (0::nat) ! i = 0" using i by (rule nth_replicate)
    show "elt ?eye ((replicate 8 (0::nat) ! hd idx) # tl idx) = (if idx ! 1 = 0 then 1 else (0::real))"
      by (simp only: idx list.sel r elt_tgen[OF v'] nth_Cons_0 nth_Cons_Suc One_nat_def
          eq_commute[of 0 j])
  qed
  have c: "\<not> (length (lshape ?ix) \<noteq> 1 \<or> shape ?eye = [] \<or> list_ex (\<lambda>i. hd (shape ?eye) \<le> i) (ldata ?ix))"
    unfolding shape_tgen list_ex_iff by simp
  have "t_index_select0 (Inr ?eye) (Inr ?ix)
        = Inr (tgen (length (ldata ?ix) # tl (shape ?eye)) (\<lambda>idx. elt ?eye ((ldata ?ix ! hd idx) # tl idx)))"
    unfolding t_index_select0.simps using c by (rule if_not_P)
  also have "\<dots> = Inr (tgen [8, 10] (\<lambda>idx. elt ?eye ((replicate 8 (0::nat) ! hd idx) # tl idx)))"
    unfolding shape_tgen by simp
  finally show ?thesis
    unfolding index_to_one_hot_def t_eye_def batch8_def zeros_hot_def snd_conv e .
qed

lemma forward_batch8:
  "CapsuleNet_forward net0 (fst batch8) (Some (Inr (zeros_hot 8)))
   = Inr (full [8, 10] (1 / 10), full [8, 784] (1 / 2))"
  unfolding batch8_def fst_conv
  by (rule net0_forward_given) (simp_all add: zeros_hot_def shape_tgen)

lemma margin_term_hit: "margin_term 1 (1 / 10) = 16 / 25"
  by (simp add: margin_term_def power2_eq_square)

lemma margin_term_miss: "margin_term 0 (1 / 10) = 0"
  by (simp add: margin_term_def)

lemma joint_loss_batch8:
  "joint_loss (black 8) (zeros_hot 8) (full [8, 10] (1 / 10)) (full [8, 784] (1 / 2)) 8 10
   = 369 / 500"
proof -
  have a: "(\<Sum>i<8. \<Sum>j<10. margin_term (elt (zeros_hot 8) [i, j])
                              (elt (full [8, 10] (1 / 10)) [i, j]))
           = (\<Sum>i<(8::nat). \<Sum>j<(10::nat). if j = 0 then 16 / 25 else (0::real))"
  proof (intro sum.cong refl)
    fix i j :: nat assume "i \<in> {..<8}" "j \<in> {..<10}"
    then have v: "valid [8, 10] [i, j]" by (simp add: valid2)
    show "margin_term (elt (zeros_hot 8) [i, j]) (elt (full [8, 10] (1 / 10)) [i, j])
          = (if j = 0 then 16 / 25 else 0)"
      unfolding zeros_hot_def elt_tgen[OF v] elt_full[OF v]
      by (simp add: margin_term_hit margin_term_miss)
  qed
  have b: "(\<Sum>q<prod_list (shape (black 8)).
              (data (full [8, 784] (1 / 2)) ! q - data (black 8) ! q)\<^sup>2)
           = (\<Sum>q<(6272::nat). 1 / (4::real))"
  proof (rule sum.cong)
    show "{..<prod_list (shape (black 8))} = {..<6272}" by (simp add: black_def shape_full)
  next
    fix q :: nat assume "q \<in> {..<6272}"
    then show "(data (full [8, 784] (1 / 2)) ! q - data (black 8) ! q)\<^sup>2 = 1 / (4::real)"
      by (simp add: black_def full_replicate power2_eq_square)
  qed
  show ?thesis unfolding joint_loss_def a b by simp
qed

lemma loss_batch8:
  "MarginLoss_forward (fst batch8) (Inr (zeros_hot 8)) (Inr (full [8, 10] (1 / 10)))
     (Inr (full [8, 784] (1 / 2))) = Inr loss8"
proof -
  have "MarginLoss_forward (Inr (black 8)) (Inr (zeros_hot 8)) (Inr (full [8, 10] (1 / 10)))
         (Inr (full [8, 784] (1 / 2)))
        = Inr \<lparr>shape = [1], data = [joint_loss (black 8) (zeros_hot 8) (full [8, 10] (1 / 10))
               (full [8, 784] (1 / 2)) 8 10]\<rparr>"
    by (rule MarginLoss_forward_value[where rest = "[1, 28, 28]"])
       (simp_all add: black_def wf_full shape_full zeros_hot_def wf_tgen shape_tgen)
  then show ?thesis by (simp add: batch8_def joint_loss_batch8 loss8_def)
qed

lemma train_step_batch8:
  assumes m: "model st = net0"
  shows "train_step w0 st idx batch8
         = st\<lparr>model := net0, steps := Suc (steps st), training := False,
              reconstructions_var := Some (Inr (full [8, 784] (1 / 2))),
              correct_var := Some 0, test_loss_var := Some (Num 0),
              trace := trace st @ train_events idx\<rparr>"
proof -
  note l = loss_batch8
  have i: "fails (fst batch8) = None" by (simp add: batch8_def)
  show ?thesis
    unfolding train_step_def Let_def one_hot_batch8 i
    by (simp add: emit_def m forward_batch8 l w0_def train_events_def)
qed


lemma train_loop_batch8:
  assumes "model st = net0" "exc st = None"
  shows "for_each (train_step w0) st i (replicate (Suc k) batch8)
         = st\<lparr>model := net0, steps := steps st + Suc k, training := False,
              reconstructions_var := Some (Inr (full [8, 784] (1 / 2))),
              correct_var := Some 0, test_loss_var := Some (Num 0),
              trace := trace st @ concat (map train_events [i..<i + Suc k])\<rparr>"
  using assms
proof (induction k arbitrary: st i)
  case 0
  then show ?case by (simp add: train_step_batch8 Let_def)
next
  case (Suc k)
  let ?st = "train_step w0 st i batch8"
  have m: "model ?st = net0" and e: "exc ?st = None"
    using Suc.prems by (simp_all add: train_step_batch8)
  have u: "[i..<i + Suc (Suc k)] = i # [Suc i..<Suc i + Suc k]"
    by (simp add: upt_conv_Cons)
  have "for_each (train_step w0) st i (replicate (Suc (Suc k)) batch8)
        = for_each (train_step w0) ?st (Suc i) (replicate (Suc k) batch8)"
    using e by (simp add: Let_def)
  also note Suc.IH[OF m e]
  finally show ?case
    unfolding u using Suc.prems(1) by (simp add: train_step_batch8)
qed


lemma max_indices_keepdim:
  assumes "shape a = [n, k]" "0 < k"
  shows "\<exists>p. t_max_indices (Inr a) 1 True = Inr p \<and> lshape p = [n, 1]"
  using assms by (simp add: norm_dim_def Let_def)

lemma view_as_pred:
  assumes "shape target = [n, 10]" "lshape p = [n, 1]" "0 < n"
  shows "t_view_as (Inr target) (Inr p) = Inl RuntimeError"
  using assms by simp

lemma test_step_batch8:
  assumes m: "model st = net0"
    and r: "reconstructions_var st = Some (Inr (full [8, 784] (1 / 2)))"
    and t: "test_loss_var st = Some tv"
  shows "test_step w0 st idx batch8
         = st\<lparr>test_loss_var := Some (py_add tv (Inr loss8)),
              trace := trace st @ [Forward, Compute_loss], exc := Some RuntimeError\<rparr>"
proof -
  note l = loss_batch8
  obtain p where p: "t_max_indices (Inr (full [8, 10] (1 / 10))) 1 True = Inr p"
    and sp: "lshape p = [8, 1]"
    using max_indices_keepdim[of "full [8, 10] (1 / 10)" 8 10] by (auto simp: shape_full)
  have va: "t_view_as (Inr (zeros_hot 8)) (Inr p) = Inl RuntimeError"
    by (rule view_as_pred[OF _ sp]) (simp_all add: zeros_hot_def shape_tgen)
  have i: "fails (fst batch8) = None" by (simp add: batch8_def)
  show ?thesis
    unfolding test_step_def Let_def one_hot_batch8 i m forward_batch8 map_res.simps fst_conv
      p va
    by (simp add: emit_def throw_def r t l raises_def)
qed



lemma train_loader_w0: "train_loader w0 e = replicate (Suc 7499) batch8"
proof -
  have "chunks 8 (replicate 60000 (full [1, 28, 28] 0, 0::nat))
        = replicate 7500 (replicate 8 (full [1, 28, 28] 0, 0))"
    using chunks_replicate[of 8 7500 "(full [1, 28, 28] 0, 0::nat)"] by simp
  then show ?thesis
    by (simp add: train_loader_def w0_def collate_black del: One_nat_def)
qed

lemma test_loader_w0: "test_loader w0 e = batch8 # replicate 1249 batch8"
proof -
  have "chunks 8 (replicate 10000 (full [1, 28, 28] 0, 0::nat))
        = replicate (Suc 1249) (replicate 8 (full [1, 28, 28] 0, 0))"
    using chunks_replicate[of 8 1250 "(full [1, 28, 28] 0, 0::nat)"] by simp
  then have "test_loader w0 e = replicate (Suc 1249) batch8"
    by (simp add: test_loader_def w0_def collate_black del: One_nat_def)
  then show ?thesis by (simp only: replicate_Suc)
qed

lemma epoch_w0:
  assumes "model st = net0" "exc st = None"
  shows "epoch w0 st e u
         = st\<lparr>model := net0, steps := steps st + 7500, training := False,
              reconstructions_var := Some (Inr (full [8, 784] (1 / 2))),
              correct_var := Some 0, test_loss_var := Some (Ten (Inr loss8)),
              trace := trace st @ [Model_train] @ concat (map train_events [0..<7500])
                       @ [Forward, Compute_loss],
              exc := Some RuntimeError\<rparr>"
proof -
  let ?st1 = "emit Model_train (st\<lparr>training := True\<rparr>)"
  have m1: "model ?st1 = net0" and e1: "exc ?st1 = None"
    using assms by (simp_all add: emit_def)
  let ?st2 = "for_each (train_step w0) ?st1 0 (train_loader w0 e)"
  have s2: "?st2 = ?st1\<lparr>model := net0, steps := steps ?st1 + Suc 7499, training := False,
              reconstructions_var := Some (Inr (full [8, 784] (1 / 2))),
              correct_var := Some 0, test_loss_var := Some (Num 0),
              trace := trace ?st1 @ concat (map train_events [0..<0 + Suc 7499])\<rparr>"
    unfolding train_loader_w0 by (rule train_loop_batch8[OF m1 e1])
  have e2: "exc ?st2 = None" unfolding s2 using e1 by simp
  let ?st3 = "test_step w0 ?st2 0 batch8"
  have s3: "?st3 = ?st2\<lparr>test_loss_var := Some (py_add (Num 0) (Inr loss8)),
              trace := trace ?st2 @ [Forward, Compute_loss], exc := Some RuntimeError\<rparr>"
    by (rule test_step_batch8) (simp_all add: s2)
  have e3: "exc ?st3 \<noteq> None" unfolding s3 by simp
  have t: "for_each (test_step w0) ?st2 0 (test_loader w0 e) = ?st3"
    unfolding test_loader_w0 for_each.simps Let_def using e3 by simp
  have "epoch w0 st e u = ?st3"
    unfolding epoch_def Let_def t using e2 e3 by simp
  also have "\<dots> = st\<lparr>model := net0, steps := steps st + 7500, training := False,
              reconstructions_var := Some (Inr (full [8, 784] (1 / 2))),
              correct_var := Some 0, test_loss_var := Some (Ten (Inr loss8)),
              trace := trace st @ [Model_train] @ concat (map train_events [0..<7500])
                       @ [Forward, Compute_loss],
              exc := Some RuntimeError\<rparr>"
    by (subst s3, subst (1 2) s2)
       (simp add: emit_def t_adds_def tmap_def loss8_def del: upt_Suc)
  finally show ?thesis .
qed

lemma script_w0:
  "script w0
   = Inr \<lparr>model = net0, steps = 7500, training = False,
          reconstructions_var = Some (Inr (full [8, 784] (1 / 2))),
          correct_var = Some 0, test_loss_var = Some (Ten (Inr loss8)),
          trace = [Model_cuda, Download ''/tmp'' True, Download ''/tmp'' False, Model_train]
                  @ concat (map train_events [0..<7500]) @ [Forward, Compute_loss],
          exc = Some RuntimeError\<rparr>"
proof -
  let ?st = "emit (Download ''/tmp'' False) (emit (Download ''/tmp'' True) (emit Model_cuda
      \<lparr>model = net0, steps = 0, training = True, reconstructions_var = None,
       correct_var = None, test_loss_var = None, trace = [], exc = None\<rparr>))"
  have m: "model ?st = net0" and e: "exc ?st = None" by (simp_all add: emit_def)
  have r: "replicate 10 () = () # replicate 9 ()" by (simp add: numeral_Bit0 numeral_Bit1)
  have i: "init w0 = iv0" by (simp add: w0_def)
  have "for_each (epoch w0) ?st 0 (replicate 10 ()) = epoch w0 ?st 0 ()"
    unfolding r for_each.simps Let_def epoch_w0[OF m e] by simp
  then show ?thesis
    unfolding script_def i new_CapsuleNet_iv0 Let_def sum.case epoch_w0[OF m e]
    by (simp add: emit_def del: upt_Suc)
qed

lemma no_file_effect_iff:
  "no_file_effect st st' \<longleftrightarrow> (\<exists>es. trace st' = trace st @ es \<and> filter file_system_effect es = [])"
proof
  assume a: "no_file_effect st st'"
  have "trace st' = take (length (trace st)) (trace st') @ drop (length (trace st)) (trace st')"
    by simp
  also have "take (length (trace st)) (trace st') = trace st"
    using a by (simp add: no_file_effect_def)
  finally have "trace st' = trace st @ drop (length (trace st)) (trace st')" .
  then show "\<exists>es. trace st' = trace st @ es \<and> filter file_system_effect es = []"
    using a unfolding no_file_effect_def by blast
next
  assume "\<exists>es. trace st' = trace st @ es \<and> filter file_system_effect es = []"
  then show "no_file_effect st st'" by (auto simp: no_file_effect_def)
qed

lemma no_file_effect_refl: "no_file_effect st st"
  by (simp add: no_file_effect_def)

lemma no_file_effect_trans:
  "no_file_effect a b \<Longrightarrow> no_file_effect b c \<Longrightarrow> no_file_effect a c"
  unfolding no_file_effect_iff by auto

lemma no_file_effect_throw: "no_file_effect st st' \<Longrightarrow> no_file_effect st (throw e st')"
  by (simp add: no_file_effect_def throw_def)

lemma no_file_effect_emit:
  "no_file_effect st st' \<Longrightarrow> \<not> file_system_effect e \<Longrightarrow> no_file_effect st (emit e st')"
  unfolding no_file_effect_iff by (auto simp: emit_def)

lemma train_step_quiet: "no_file_effect st (train_step w st idx batch)"
  unfolding train_step_def Let_def no_file_effect_iff
  by (simp add: emit_def throw_def split: option.splits)

lemma test_step_quiet: "no_file_effect st (test_step w st idx batch)"
  unfolding test_step_def Let_def no_file_effect_iff
  by (simp add: emit_def throw_def split: option.splits sum.splits)

lemma report_quiet: "no_file_effect st (report w st)"
  unfolding report_def no_file_effect_iff
  by (simp add: throw_def split: option.splits pyval.splits)

lemma for_each_quiet:
  assumes "\<And>st i b. no_file_effect st (body st i b)"
  shows "no_file_effect st (for_each body st i bs)"
proof (induction bs arbitrary: st i)
  case Nil show ?case by (simp add: no_file_effect_refl)
next
  case (Cons b bs)
  show ?case
    using assms[of st i b] Cons[of "body st i b" "Suc i"]
    by (auto simp: Let_def intro: no_file_effect_trans)
qed

lemma epoch_quiet: "no_file_effect st (epoch w st e u)"
proof -
  let ?st1 = "emit Model_train (st\<lparr>training := True\<rparr>)"
  have 1: "no_file_effect st ?st1" unfolding no_file_effect_iff by (simp add: emit_def)
  have 2: "no_file_effect ?st1 (for_each (train_step w) ?st1 0 (train_loader w e))"
    by (rule for_each_quiet) (rule train_step_quiet)
  let ?st2 = "for_each (train_step w) ?st1 0 (train_loader w e)"
  have 3: "no_file_effect ?st2 (for_each (test_step w) ?st2 0 (test_loader w e))"
    by (rule for_each_quiet) (rule test_step_quiet)
  let ?st3 = "for_each (test_step w) ?st2 0 (test_loader w e)"
  have 4: "no_file_effect ?st3 (report w ?st3)" by (rule report_quiet)
  note 12 = no_file_effect_trans[OF 1 2]
  note 13 = no_file_effect_trans[OF 12 3]
  note 14 = no_file_effect_trans[OF 13 4]
  show ?thesis unfolding epoch_def Let_def using 12 13 14 by simp
qed

lemma train_events_counts:
  "filter (\<lambda>e. e = Model_train) (concat (map train_events xs)) = []"
  "length (filter (\<lambda>e. e = Optimizer_step) (concat (map train_events xs))) = length xs"
  "Print_test \<notin> set (concat (map train_events xs))"
  by (induction xs) (simp_all add: train_events_def)

section \<open>C1: what the routing loop computes\<close>

lemmas ev = squash_vector_def t_pow_def tmap_def norm_dim_def tgen_def elt_def t_adds_def bshape_def bidx_def t_mul_def t_add_def Let_def upt_rec
  routing_priors_def routing_start_def routing_iteration_def range_def softmax_def
  softmax_along_def view_shape_def t_zeros_def

lemma half: "exp c / (exp c + exp c) = (1 / 2 :: real)"
proof -
  have "exp c + exp c = 2 * exp c" by simp
  then show ?thesis by (simp only:) simp
qed

lemma p0: "routing_priors lay3 (Inr \<lparr>shape = [1, 2, 1], data = [1, 1]\<rparr>) = Inr \<lparr>shape = [1, 1, 2, 1, 1], data = [1, 1]\<rparr>"
  by (simp add: ev lay3_def)

lemma sm: "softmax (Inr \<lparr>shape = [1, 1, 2, 1, 1], data = [c, c]\<rparr>) 2 = Inr \<lparr>shape = [1, 1, 2, 1, 1], data = [1 / 2, 1 / 2]\<rparr>"
  by (simp add: ev half)

lemma it: "routing_iteration lay3 (Inr \<lparr>shape = [1, 1, 2, 1, 1], data = [1, 1]\<rparr>)
     \<lparr>st_logits = Inr \<lparr>shape = [1, 1, 2, 1, 1], data = [c, c]\<rparr>, st_outputs = out, st_executed = e, st_updated = u\<rparr> i
   = \<lparr>st_logits = Inr \<lparr>shape = [1, 1, 2, 1, 1], data = (if i \<noteq> 2 then [c + 2 / 5, c + 2 / 5] else [c, c])\<rparr>,
      st_outputs = Some (Inr \<lparr>shape = [1, 1, 1, 1, 1], data = [2 / 5]\<rparr>),
      st_executed = e @ [i], st_updated = (if i \<noteq> 2 then u @ [i] else u)\<rparr>"
  unfolding routing_iteration_def Let_def routing_state.simps sm
  by (simp add: squash_vector_def t_pow_def tmap_def norm_dim_def tgen_def elt_def t_adds_def bshape_def bidx_def t_mul_def t_add_def Let_def upt_rec lay3_def real_sqrt_divide power2_eq_square)

lemma routing_lay3:
  "routing lay3 (Inr \<lparr>shape = [1, 2, 1], data = [1, 1]\<rparr>)
   = \<lparr>st_logits = Inr \<lparr>shape = [1, 1, 2, 1, 1], data = [4 / 5, 4 / 5]\<rparr>,
      st_outputs = Some (Inr \<lparr>shape = [1, 1, 1, 1, 1], data = [2 / 5]\<rparr>),
      st_executed = [0, 1, 2], st_updated = [0, 1]\<rparr>"
proof -
  have r: "range (num_iterations lay3) = [0, 1, 2]"
    by (simp add: range_def lay3_def upt_rec)
  have z: "routing_start (Inr \<lparr>shape = [1, 1, 2, 1, 1], data = [1, 1]\<rparr>)
           = \<lparr>st_logits = Inr \<lparr>shape = [1, 1, 2, 1, 1], data = [0, 0]\<rparr>, st_outputs = None,
              st_executed = [], st_updated = []\<rparr>"
    by (simp add: routing_start_def t_zeros_def tgen_def upt_rec)
  show ?thesis
    unfolding routing_def Let_def p0 z r
    by (simp add: it raised_def raises_def Let_def del: One_nat_def)
qed

text \<open>
  Claim C1 says that each output capsule is the squash of the coupling-weighted sum of
  the priors.  The layer squashes every weighted prior and then sums.  On the small layer
  with both priors equal to 1 the coupling coefficients are \<open>1 / 2\<close> in every iteration;
  \<open>forward\<close> returns \<open>2 / 5\<close>, twice the squash of \<open>1 / 2\<close>, while the squash
  of the weighted sum \<open>1\<close> is \<open>1 / 2\<close>.
\<close>

theorem CapsuleLayer_forward_sums_squashed_priors:
  "CapsuleLayer_forward lay3 (Inr \<lparr>shape = [1, 2, 1], data = [1, 1]\<rparr>)
     = Inr \<lparr>shape = [1, 1, 1, 1, 1], data = [2 / 5]\<rparr>
   \<and> routing_priors lay3 (Inr \<lparr>shape = [1, 2, 1], data = [1, 1]\<rparr>)
     = Inr \<lparr>shape = [1, 1, 2, 1, 1], data = [1, 1]\<rparr>
   \<and> softmax (st_logits (routing lay3 (Inr \<lparr>shape = [1, 2, 1], data = [1, 1]\<rparr>))) 2
     = Inr \<lparr>shape = [1, 1, 2, 1, 1], data = [1 / 2, 1 / 2]\<rparr>
   \<and> squash_vector
       (t_sum (t_mul (softmax (st_logits (routing lay3 (Inr \<lparr>shape = [1, 2, 1], data = [1, 1]\<rparr>))) 2)
                     (routing_priors lay3 (Inr \<lparr>shape = [1, 2, 1], data = [1, 1]\<rparr>))) 2 True) (- 1)
     = Inr \<lparr>shape = [1, 1, 1, 1, 1], data = [1 / 2]\<rparr>"
proof -
  have fw: "CapsuleLayer_forward lay3 (Inr \<lparr>shape = [1, 2, 1], data = [1, 1]\<rparr>)
     = Inr \<lparr>shape = [1, 1, 1, 1, 1], data = [2 / 5]\<rparr>"
    unfolding CapsuleLayer_forward_def routing_lay3 by (simp add: lay3_def)
  have sq: "squash_vector
       (t_sum (t_mul (Inr \<lparr>shape = [1, 1, 2, 1, 1], data = [1 / 2, 1 / 2]\<rparr>)
                     (Inr \<lparr>shape = [1, 1, 2, 1, 1], data = [1, 1]\<rparr>)) 2 True) (- 1)
     = Inr \<lparr>shape = [1, 1, 1, 1, 1], data = [1 / 2]\<rparr>"
    by (simp add: squash_vector_def t_pow_def tmap_def norm_dim_def tgen_def elt_def t_adds_def
        bshape_def bidx_def t_mul_def Let_def upt_rec)
  show ?thesis
    unfolding fw routing_lay3 routing_state.simps sm p0 sq by simp
qed

section \<open>C2: the joint loss\<close>

text \<open>
  Claim C2.  For a batch of \<open>n\<close> images, one-hot labels and class scores of shape
  \<open>(n, k)\<close> and reconstructions with as many elements as the images,
  \<open>MarginLoss.forward\<close> returns the joint loss: the sum over samples and classes of
  \<open>label * relu(0.9 - score)\<^sup>2 + 0.5 * (1 - label) * relu(score - 0.1)\<^sup>2\<close>, plus 0.0005
  times the summed squared error between reconstructions and images, all divided by the
  batch size \<open>images.size(0)\<close>.
\<close>

theorem MarginLoss_forward_joint_loss:
  assumes "wf_ten images" "wf_ten labels" "wf_ten classes" "wf_ten reconstructions"
    and "shape labels = [n, k]" "shape classes = [n, k]"
    and "shape images = n # rest" "0 < n"
    and "prod_list (shape reconstructions) = prod_list (shape images)"
  shows "MarginLoss_forward (Inr images) (Inr labels) (Inr classes) (Inr reconstructions)
         = Inr \<lparr>shape = [1], data = [joint_loss images labels classes reconstructions n k]\<rparr>"
  using assms by (rule MarginLoss_forward_value)

theorem MarginLoss_forward_joint_loss_witness:
  "MarginLoss_forward (Inr \<lparr>shape = [2, 1], data = [1, 0]\<rparr>)
                      (Inr \<lparr>shape = [2, 2], data = [1, 0, 0, 1]\<rparr>)
                      (Inr \<lparr>shape = [2, 2], data = [9 / 10, 1 / 10, 1 / 2, 1 / 2]\<rparr>)
                      (Inr \<lparr>shape = [2, 1], data = [1 / 2, 0]\<rparr>)
   = Inr \<lparr>shape = [1], data = [1921 / 16000]\<rparr>"
  using MarginLoss_forward_joint_loss[of
      "\<lparr>shape = [2, 1], data = [1, 0]\<rparr>"
      "\<lparr>shape = [2, 2], data = [1, 0, 0, 1]\<rparr>"
      "\<lparr>shape = [2, 2], data = [9 / 10, 1 / 10, 1 / 2, 1 / 2]\<rparr>"
      "\<lparr>shape = [2, 1], data = [1 / 2, 0]\<rparr>" 2 2 "[1]"]
  by (simp add: wf_ten_def joint_loss_def margin_term_def elt_def lessThan_Suc numeral_2_eq_2
      power2_eq_square)

section \<open>C3: the class scores\<close>

text \<open>
  Claim C3, amended.  For a network of the fixed topology and a batch of \<open>n \<ge> 2\<close> images
  of shape \<open>(n, 1, 28, 28)\<close>, the class scores \<open>forward\<close> returns are the softmax, over
  the 10 classes, of the lengths of the digit-capsule output vectors: the lengths are
  passed through \<open>F.softmax\<close> before they are returned.
\<close>

theorem CapsuleNet_forward_class_scores:
  assumes top: "CapsNet_topology self" and x: "shape x = [n, 1, 28, 28]" and n: "2 \<le> n"
  shows "CapsuleNet_forward self (Inr x) y = Inr (classes, reconstructions) \<longrightarrow>
         (\<exists>d. digit_caps_output self (Inr x) = Inr d \<and> shape d = [10, n, 1, 1, 16] \<and>
              classes = softmax_along (capsule_lengths d n) 1 \<and>
              (\<forall>b<n. \<forall>c<10. elt classes [b, c]
                  = exp (capsule_length d b c) / (\<Sum>j<10. exp (capsule_length d b j))))"
proof
  assume fw: "CapsuleNet_forward self (Inr x) y = Inr (classes, reconstructions)"
  have ok: "okv [10, n, 1, 1, 16] (digit_caps_output self (Inr x))"
    using digit_caps_output_ok[OF top x] n by simp
  obtain d where d: "digit_caps_output self (Inr x) = Inr d"
    using fw forward_digit_Inl[of self "Inr x" _ y] by (cases "digit_caps_output self (Inr x)") auto
  have sh: "shape d = [10, n, 1, 1, 16]" using ok d by (simp add: okv_def)
  have cl: "classes = softmax_along (capsule_lengths d n) 1"
    using forward_classes[OF fw] classes_of_digit_caps(1)[OF sh n] unfolding d by simp
  have pt: "elt classes [b, c] = exp (capsule_length d b c) / (\<Sum>j<10. exp (capsule_length d b j))"
    if "b < n" "c < 10" for b c
    unfolding cl capsule_lengths_def using elt_softmax_along2[OF that] by simp
  show "\<exists>d. digit_caps_output self (Inr x) = Inr d \<and> shape d = [10, n, 1, 1, 16] \<and>
              classes = softmax_along (capsule_lengths d n) 1 \<and>
              (\<forall>b<n. \<forall>c<10. elt classes [b, c]
                  = exp (capsule_length d b c) / (\<Sum>j<10. exp (capsule_length d b j)))"
    using d sh cl pt by blast
qed

theorem CapsuleNet_forward_class_scores_witness:
  "CapsuleNet_forward net0 (Inr (black 2)) (Some (Inr (zeros_hot 2)))
     = Inr (full [2, 10] (1 / 10), full [2, 784] (1 / 2))
   \<and> (\<exists>d. digit_caps_output net0 (Inr (black 2)) = Inr d \<and> shape d = [10, 2, 1, 1, 16] \<and>
          full [2, 10] (1 / 10) = softmax_along (capsule_lengths d 2) 1)"
proof -
  have fw: "CapsuleNet_forward net0 (Inr (black 2)) (Some (Inr (zeros_hot 2)))
     = Inr (full [2, 10] (1 / 10), full [2, 784] (1 / 2))"
    by (rule net0_forward_given) (simp_all add: zeros_hot_def shape_tgen)
  have x: "shape (black 2) = [2, 1, 28, 28]" by (simp add: black_def shape_full)
  show ?thesis
    using CapsuleNet_forward_class_scores[OF net0_topology x, of "Some (Inr (zeros_hot 2))"
        "full [2, 10] (1 / 10)" "full [2, 784] (1 / 2)"] fw
    by auto
qed

text \<open>
  Claim C3 as stated, that the class scores are the lengths themselves, fails on the
  network with simple parameters and two black images: every digit-capsule output vector
  has all 16 components equal to \<open>4608 / 17\<close>, so its length is \<open>18432 / 17\<close>, and every
  class score is \<open>1 / 10\<close>.
\<close>

theorem class_scores_are_not_lengths:
  "CapsuleNet_forward net0 (Inr (black 2)) (Some (Inr (zeros_hot 2)))
     = Inr (full [2, 10] (1 / 10), full [2, 784] (1 / 2))
   \<and> digit_caps_output net0 (Inr (black 2)) = Inr (full [10, 2, 1, 1, 16] (4608 / 17))
   \<and> elt (full [2, 10] (1 / 10)) [0, 0] = 1 / 10
   \<and> capsule_length (full [10, 2, 1, 1, 16] (4608 / 17)) 0 0 = 18432 / 17
   \<and> elt (full [2, 10] (1 / 10)) [0, 0] \<noteq> capsule_length (full [10, 2, 1, 1, 16] (4608 / 17)) 0 0"
proof -
  have fw: "CapsuleNet_forward net0 (Inr (black 2)) (Some (Inr (zeros_hot 2)))
     = Inr (full [2, 10] (1 / 10), full [2, 784] (1 / 2))"
    by (rule net0_forward_given) (simp_all add: zeros_hot_def shape_tgen)
  have dc: "digit_caps_output net0 (Inr (black 2)) = Inr (full [10, 2, 1, 1, 16] (4608 / 17))"
    by (rule net0_digit_caps) simp
  have e: "elt (full [2, 10] (1 / 10)) [0, 0] = 1 / 10" by (simp add: elt_full valid2)
  have l: "capsule_length (full [10, 2, 1, 1, 16] (4608 / 17)) 0 0 = 18432 / 17"
    using capsule_length_full[of 0 2 0 "4608 / 17"] by simp
  show ?thesis unfolding e l using fw dc by simp
qed

section \<open>C4: how often the routing loop runs\<close>

lemma logits_update_lay3:
  "logits_update (Inr \<lparr>shape = [1, 1, 2, 1, 1], data = [1, 1]\<rparr>)
     (Inr \<lparr>shape = [1, 1, 2, 1, 1], data = [c, c]\<rparr>)
   = Inr \<lparr>shape = [1, 1, 2, 1, 1], data = [c + 2 / 5, c + 2 / 5]\<rparr>"
  unfolding logits_update_def outputs_from_def agreement_def coupling_def sm
  by (simp add: squash_vector_def t_pow_def tmap_def norm_dim_def tgen_def elt_def t_adds_def
      bshape_def bidx_def t_mul_def t_add_def Let_def upt_rec real_sqrt_divide power2_eq_square)

lemma outputs_from_lay3:
  "outputs_from (Inr \<lparr>shape = [1, 1, 2, 1, 1], data = [1, 1]\<rparr>)
     (Inr \<lparr>shape = [1, 1, 2, 1, 1], data = [c, c]\<rparr>)
   = Inr \<lparr>shape = [1, 1, 1, 1, 1], data = [2 / 5]\<rparr>"
  unfolding outputs_from_def coupling_def sm
  by (simp add: squash_vector_def t_pow_def tmap_def norm_dim_def tgen_def elt_def t_adds_def
      bshape_def bidx_def t_mul_def Let_def upt_rec real_sqrt_divide power2_eq_square)

lemma zeros_lay3: "t_zeros [1, 1, 2, 1, 1] = Inr \<lparr>shape = [1, 1, 2, 1, 1], data = [0, 0]\<rparr>"
  by (simp add: t_zeros_def tgen_def upt_rec)

text \<open>
  Claim C4.  For a layer with routing (\<open>num_routes \<noteq> -1\<close>) and \<open>num_iterations = n\<close>,
  \<open>forward\<close> runs the routing iteration exactly \<open>n\<close> times, the logits start as the
  zero tensor, so that the first coupling coefficients are uniform over the routes, and
  the logits are updated exactly \<open>n - 1\<close> times, never in the last iteration.

  As stated this fails for three kinds of layer and input.  With \<open>num_iterations = 0\<close>
  the loop does not run, the logits are still the zero tensor at the end, updated zero
  times and not \<open>n - 1 = -1\<close> times, and \<open>return outputs\<close> raises \<open>UnboundLocalError\<close>
  because \<open>outputs\<close> was never assigned.  With \<open>num_routes = 0\<close> the first iteration
  raises in the softmax over no route.  On an input whose shape does not fit the routing
  weights the product that gives the priors raises before the loop.
\<close>

theorem routing_count_fails_without_iterations:
  "CapsuleLayer_forward lay0 (Inr \<lparr>shape = [1, 2, 1], data = [1, 1]\<rparr>) = Inl UnboundLocalError
   \<and> st_logits (routing lay0 (Inr \<lparr>shape = [1, 2, 1], data = [1, 1]\<rparr>))
     = t_zeros [1, 1, 2, 1, 1]
   \<and> int (length (st_updated (routing lay0 (Inr \<lparr>shape = [1, 2, 1], data = [1, 1]\<rparr>))))
     \<noteq> num_iterations lay0 - 1
   \<and> CapsuleLayer_forward lay_no_routes (Inr \<lparr>shape = [1, 0, 1], data = []\<rparr>)
     = Inl RuntimeError
   \<and> CapsuleLayer_forward lay3 (Inr \<lparr>shape = [1, 3, 1], data = [1, 1, 1]\<rparr>)
     = Inl RuntimeError"
proof -
  have 1: "CapsuleLayer_forward lay0 (Inr \<lparr>shape = [1, 2, 1], data = [1, 1]\<rparr>)
           = Inl UnboundLocalError"
    by (simp add: CapsuleLayer_forward_def routing_def Let_def lay0_def ev raised_def raises_def)
  have 2: "routing lay0 (Inr \<lparr>shape = [1, 2, 1], data = [1, 1]\<rparr>)
           = \<lparr>st_logits = Inr \<lparr>shape = [1, 1, 2, 1, 1], data = [0, 0]\<rparr>, st_outputs = None,
              st_executed = [], st_updated = []\<rparr>"
    by (simp add: routing_def Let_def lay0_def ev raised_def raises_def)
  have 3: "CapsuleLayer_forward lay_no_routes (Inr \<lparr>shape = [1, 0, 1], data = []\<rparr>)
           = Inl RuntimeError"
    by (simp add: CapsuleLayer_forward_def routing_def Let_def lay_no_routes_def ev raised_def
        raises_def)
  have 4: "CapsuleLayer_forward lay3 (Inr \<lparr>shape = [1, 3, 1], data = [1, 1, 1]\<rparr>)
           = Inl RuntimeError"
    by (simp add: CapsuleLayer_forward_def routing_def Let_def lay3_def ev raised_def raises_def)
  show ?thesis unfolding 1 2 3 4 zeros_lay3 by (simp add: lay0_def)
qed

text \<open>
  Claim C4, amended.  For a layer with routing over \<open>R \<ge> 1\<close> input capsules, routing
  weights of shape \<open>(C, R, K, M)\<close> and \<open>num_iterations = n \<ge> 1\<close>, on an input of shape
  \<open>(B, R, K)\<close>: the logits start as the zero tensor of the priors' shape, so the first
  coupling coefficients are \<open>1 / R\<close> for every route; the logits the loop leaves are the
  zero tensor updated exactly \<open>n - 1\<close> times; \<open>forward\<close> returns the outputs computed
  from these logits in the last iteration, which does not update them; the body runs for
  \<open>i = 0, \<dots>, n - 1\<close>, that is exactly \<open>n\<close> times, and assigns the logits for
  \<open>i = 0, \<dots>, n - 2\<close>.
\<close>

theorem routing_iteration_count:
  assumes nr: "num_routes self = int R" "0 < R"
    and rw: "route_weights self = Some rw" "shape rw = [C, R, K, M]"
    and x: "shape x = [B, R, K]"
    and n: "1 \<le> num_iterations self"
  shows "st_logits (routing_start (routing_priors self (Inr x))) = t_zeros [C, B, R, 1, M]
       \<and> coupling (t_zeros [C, B, R, 1, M]) = Inr (tgen [C, B, R, 1, M] (\<lambda>idx. 1 / real R))
       \<and> st_logits (routing self (Inr x))
         = (logits_update (routing_priors self (Inr x)) ^^ nat (num_iterations self - 1))
             (t_zeros [C, B, R, 1, M])
       \<and> CapsuleLayer_forward self (Inr x)
         = outputs_from (routing_priors self (Inr x))
             ((logits_update (routing_priors self (Inr x)) ^^ nat (num_iterations self - 1))
                (t_zeros [C, B, R, 1, M]))
       \<and> st_executed (routing self (Inr x)) = range (num_iterations self)
       \<and> length (st_executed (routing self (Inr x))) = nat (num_iterations self)
       \<and> st_updated (routing self (Inr x)) = range (num_iterations self - 1)
       \<and> length (st_updated (routing self (Inr x))) = nat (num_iterations self - 1)
       \<and> num_iterations self - 1 \<notin> set (st_updated (routing self (Inr x)))"
proof -
  let ?s = "[C, B, R, 1, M]"
  let ?n = "num_iterations self"
  let ?priors = "routing_priors self (Inr x)"
  let ?st0 = "routing_start ?priors"
  let ?L = "(logits_update ?priors ^^ nat (?n - 1)) (t_zeros ?s)"
  obtain P where P: "?priors = Inr P" "wf_ten P" "shape P = ?s"
    using routing_priors_eq[OF rw x] by (simp add: wf_tgen shape_tgen)
  have p: "okv ?s ?priors" using P by (simp add: okv_def)
  have lg0: "st_logits ?st0 = t_zeros ?s" using P by (simp add: routing_start_def)
  have ok0: "okv ?s (st_logits ?st0)"
    unfolding lg0 by (simp add: t_zeros_def okv_def wf_tgen shape_tgen)
  have nr0: "\<not> raised ?st0"
    using okv_not_raise[OF ok0] by (simp add: raised_def routing_start_def)
  have rt: "routing self (Inr x) = routing_loop self ?priors ?st0 (range ?n)"
    using nr0 by (simp add: routing_def Let_def)
  have loop: "okv ?s (st_logits (routing self (Inr x)))"
    "st_executed (routing self (Inr x)) = range ?n"
    "st_updated (routing self (Inr x)) = range (?n - 1)"
    using routing_loop_ok[OF p _ _ ok0, of self "range ?n"] nr(2)
    unfolding rt by (simp_all add: routing_start_def filter_range)
  have vals: "st_logits (routing self (Inr x)) = ?L"
    "st_outputs (routing self (Inr x)) = Some (outputs_from ?priors ?L)"
    using routing_loop_values[OF p _ _ ok0 range_below, of self] nr(2)
    unfolding rt range_snoc[OF n] lg0 by (simp_all add: length_range)
  have fw: "CapsuleLayer_forward self (Inr x) = outputs_from ?priors ?L"
    using okv_not_raise[OF loop(1)] nr vals(2) by (simp add: CapsuleLayer_forward_def Let_def)
  have un: "coupling (t_zeros ?s) = Inr (tgen ?s (\<lambda>idx. 1 / real R))"
    using softmax_zeros[of ?s 2 2] nr(2) by (simp add: norm_dim_def coupling_def)
  have notin: "?n - 1 \<notin> set (range (?n - 1))"
    by (auto simp: range_def)
  show ?thesis
    using fw vals(1) loop(2,3) lg0 un notin by (simp add: range_def)
qed

theorem routing_iteration_count_witness:
  "st_logits (routing lay3 (Inr \<lparr>shape = [1, 2, 1], data = [1, 1]\<rparr>))
     = Inr \<lparr>shape = [1, 1, 2, 1, 1], data = [4 / 5, 4 / 5]\<rparr>
   \<and> (logits_update (Inr \<lparr>shape = [1, 1, 2, 1, 1], data = [1, 1]\<rparr>) ^^ 2) (t_zeros [1, 1, 2, 1, 1])
     = Inr \<lparr>shape = [1, 1, 2, 1, 1], data = [4 / 5, 4 / 5]\<rparr>
   \<and> (logits_update (Inr \<lparr>shape = [1, 1, 2, 1, 1], data = [1, 1]\<rparr>) ^^ 3) (t_zeros [1, 1, 2, 1, 1])
     = Inr \<lparr>shape = [1, 1, 2, 1, 1], data = [6 / 5, 6 / 5]\<rparr>
   \<and> CapsuleLayer_forward lay3 (Inr \<lparr>shape = [1, 2, 1], data = [1, 1]\<rparr>)
     = Inr \<lparr>shape = [1, 1, 1, 1, 1], data = [2 / 5]\<rparr>
   \<and> st_executed (routing lay3 (Inr \<lparr>shape = [1, 2, 1], data = [1, 1]\<rparr>)) = [0, 1, 2]
   \<and> st_updated (routing lay3 (Inr \<lparr>shape = [1, 2, 1], data = [1, 1]\<rparr>)) = [0, 1]
   \<and> coupling (t_zeros [1, 1, 2, 1, 1]) = Inr (tgen [1, 1, 2, 1, 1] (\<lambda>idx. 1 / 2))"
proof -
  let ?x = "Inr \<lparr>shape = [1, 2, 1], data = [1, 1]\<rparr>"
  let ?P = "Inr \<lparr>shape = [1, 1, 2, 1, 1], data = [1, 1]\<rparr>"
  have hyp: "num_routes lay3 = int 2" "0 < (2::nat)"
    "route_weights lay3 = Some \<lparr>shape = [1, 2, 1, 1], data = [1, 1]\<rparr>"
    "shape \<lparr>shape = [1, 2, 1, 1], data = [1, 1]\<rparr> = [1, 2, 1, 1]"
    "shape \<lparr>shape = [1, 2, 1], data = [1, 1]\<rparr> = [1, 2, 1]"
    "1 \<le> num_iterations lay3"
    by (simp_all add: lay3_def)
  note T = routing_iteration_count[OF hyp]
  have k: "nat (num_iterations lay3 - 1) = 2" and k': "num_iterations lay3 = 3"
    by (simp_all add: lay3_def)
  have p2: "(f ^^ 2) z = f (f z)" and p3: "(f ^^ 3) z = f (f (f z))" for f :: "ten res \<Rightarrow> ten res" and z
    by (simp_all add: numeral_2_eq_2 numeral_3_eq_3)
  have f2: "(logits_update ?P ^^ 2) (t_zeros [1, 1, 2, 1, 1])
            = Inr \<lparr>shape = [1, 1, 2, 1, 1], data = [4 / 5, 4 / 5]\<rparr>"
    unfolding zeros_lay3 p2 logits_update_lay3 by simp
  have f3: "(logits_update ?P ^^ 3) (t_zeros [1, 1, 2, 1, 1])
            = Inr \<lparr>shape = [1, 1, 2, 1, 1], data = [6 / 5, 6 / 5]\<rparr>"
    unfolding zeros_lay3 p3 logits_update_lay3 by simp
  have lg: "st_logits (routing lay3 ?x) = Inr \<lparr>shape = [1, 1, 2, 1, 1], data = [4 / 5, 4 / 5]\<rparr>"
    using T[THEN conjunct2, THEN conjunct2, THEN conjunct1] unfolding p0 k f2 .
  have fw: "CapsuleLayer_forward lay3 ?x = Inr \<lparr>shape = [1, 1, 1, 1, 1], data = [2 / 5]\<rparr>"
    using T[THEN conjunct2, THEN conjunct2, THEN conjunct2, THEN conjunct1]
    unfolding p0 k f2 outputs_from_lay3 .
  have ex: "st_executed (routing lay3 ?x) = [0, 1, 2]"
    using T[THEN conjunct2, THEN conjunct2, THEN conjunct2, THEN conjunct2, THEN conjunct1]
    unfolding k' by (simp add: range_def upt_rec)
  have up: "st_updated (routing lay3 ?x) = [0, 1]"
    using T[THEN conjunct2, THEN conjunct2, THEN conjunct2, THEN conjunct2, THEN conjunct2,
            THEN conjunct2, THEN conjunct1]
    unfolding k' by (simp add: range_def upt_rec)
  have un: "coupling (t_zeros [1, 1, 2, 1, 1]) = Inr (tgen [1, 1, 2, 1, 1] (\<lambda>idx. 1 / 2))"
    using T[THEN conjunct2, THEN conjunct1] by simp
  show ?thesis using lg f2 f3 fw ex up un by (simp only: simp_thms)
qed

section \<open>C5: the topology\<close>

text \<open>
  Claim C5.  The constructor takes no input, and whatever initial values the parameters
  get, the network it builds has the fixed topology: a convolution from 1 to 256 channels
  with kernel 9 and stride 1, 8 primary-capsule convolutions from 256 to 32 channels with
  kernel 9 and stride 2, a digit-capsule layer of 10 capsules routing over
  \<open>32 * 6 * 6 = 1152\<close> input capsules from 8 to 16 channels, and a decoder of linear
  layers from 160 to 512 to 1024 to 784 ending in a sigmoid.  For a network of that
  topology, every component of a reconstruction that \<open>forward\<close> returns lies in
  \<open>[0, 1]\<close>.
\<close>

theorem CapsuleNet_topology_fixed:
  "(\<exists>net. new_CapsuleNet iv = Inr net \<and> CapsNet_topology net)
   \<and> (CapsNet_topology self \<and> CapsuleNet_forward self x y = Inr (classes, reconstructions)
        \<longrightarrow> (\<forall>v\<in>set (data reconstructions). 0 \<le> v \<and> v \<le> 1))"
proof (intro conjI impI)
  show "\<exists>net. new_CapsuleNet iv = Inr net \<and> CapsNet_topology net"
    by (rule new_CapsuleNet_topology)
next
  assume a: "CapsNet_topology self \<and> CapsuleNet_forward self x y = Inr (classes, reconstructions)"
  then obtain z where "Sequential (decoder self) z = Inr reconstructions"
    unfolding CapsuleNet_forward_def Let_def pair_res_Inr by blast
  then show "\<forall>v\<in>set (data reconstructions). 0 \<le> v \<and> v \<le> 1"
    using a decoder_range by blast
qed

theorem CapsuleNet_topology_fixed_witness:
  "new_CapsuleNet iv0 = Inr net0 \<and> CapsNet_topology net0
   \<and> CapsuleNet_forward net0 (Inr (black 2)) (Some (Inr (zeros_hot 2)))
       = Inr (full [2, 10] (1 / 10), full [2, 784] (1 / 2))
   \<and> list_all (\<lambda>v. 0 \<le> v \<and> v \<le> 1) (data (full [2, 784] (1 / 2)))"
proof -
  have fw: "CapsuleNet_forward net0 (Inr (black 2)) (Some (Inr (zeros_hot 2)))
     = Inr (full [2, 10] (1 / 10), full [2, 784] (1 / 2))"
    by (rule net0_forward_given) (simp_all add: zeros_hot_def shape_tgen)
  have "\<forall>v\<in>set (data (full [2, 784] (1 / 2))). 0 \<le> v \<and> v \<le> 1"
    using CapsuleNet_topology_fixed[of iv0 net0 "Inr (black 2)" "Some (Inr (zeros_hot 2))"
        "full [2, 10] (1 / 10)" "full [2, 784] (1 / 2)"] net0_topology fw
    by blast
  then show ?thesis
    using new_CapsuleNet_iv0 net0_topology fw by (simp add: list_all_iff)
qed

section \<open>C6: the training loop\<close>

text \<open>
  Claim C6.  The training loop runs 10 epochs over the training set in batches of 8, and
  for each batch zeroes the gradients, runs the model forward with the one-hot target,
  computes the joint loss, backpropagates and takes one optimizer step.

  On the world \<open>w0\<close> the run has one epoch, not ten: after the 7500 training batches of
  the first epoch, each with its events in the order the claim gives (followed by the
  print and by \<open>model.eval()\<close>, which the indentation puts in the body of the training
  loop), the first batch of the test loop raises, and the exception ends the script.
  The run takes 7500 optimizer steps and enters training mode once.
\<close>

theorem script_runs_one_epoch:
  "map_res trace (script w0)
   = Inr ([Model_cuda, Download ''/tmp'' True, Download ''/tmp'' False, Model_train]
          @ concat (map train_events [0..<7500]) @ [Forward, Compute_loss])
   \<and> map_res steps (script w0) = Inr 7500
   \<and> map_res (\<lambda>st. length (filter (\<lambda>e. e = Model_train) (trace st))) (script w0) = Inr 1
   \<and> map_res (\<lambda>st. length (filter (\<lambda>e. e = Optimizer_step) (trace st))) (script w0)
     = Inr 7500"
  unfolding script_w0 by (simp add: train_events_counts)

section \<open>C7: the test loop\<close>

text \<open>
  Claim C7.  After the training batches of each epoch the script evaluates the model on
  every batch of the test set and prints the average loss and the accuracy.

  On the world \<open>w0\<close> the script ends with \<open>RuntimeError\<close> in the first batch of the
  first test loop and prints no test metrics: \<open>target.data.view_as(pred)\<close> asks for the
  one-hot target, of shape \<open>(8, 10)\<close>, in the shape \<open>(8, 1)\<close> of the predictions.  The
  count of correct predictions is still 0, and the loss added to \<open>test_loss\<close> was
  computed from the reconstructions of the last training batch.
\<close>

theorem script_test_loop_raises:
  "map_res exc (script w0) = Inr (Some RuntimeError)
   \<and> map_res (\<lambda>st. Print_test \<in> set (trace st)) (script w0) = Inr False
   \<and> map_res correct_var (script w0) = Inr (Some 0)
   \<and> map_res (\<lambda>st. drop 52504 (trace st)) (script w0) = Inr [Forward, Compute_loss]
   \<and> t_view_as (index_to_one_hot (Inr (snd batch8)) 10)
        (t_max_indices (Inr (full [8, 10] (1 / 10))) 1 True) = Inl RuntimeError"
proof -
  obtain p where p: "t_max_indices (Inr (full [8, 10] (1 / 10))) 1 True = Inr p"
    and sp: "lshape p = [8, 1]"
    using max_indices_keepdim[of "full [8, 10] (1 / 10)" 8 10] by (auto simp: shape_full)
  have va: "t_view_as (Inr (zeros_hot 8)) (Inr p) = Inl RuntimeError"
    by (rule view_as_pred[OF _ sp]) (simp_all add: zeros_hot_def shape_tgen)
  have l: "length (concat (map train_events [0..<7500])) = 52500"
    by (simp add: length_concat comp_def train_events_def sum_list_triv del: upt_Suc)
  show ?thesis
    unfolding script_w0 one_hot_batch8 p va
    by (simp add: train_events_def l del: upt_Suc)
qed

section \<open>C8: no persistence\<close>

text \<open>
  Claim C8.  Whatever the data, the initial parameters and the optimizer do, the script
  runs, and the events of its run that touch the file system are the two MNIST downloads
  to \<open>/tmp\<close>, made when the data loaders are built: they are the second and third event
  of the trace, after \<open>model.cuda()\<close> and before the first epoch, and no later event of
  the run touches the file system.  No statement of the script saves parameters,
  optimizer state or metrics, so the events of the model have no such case.
\<close>

theorem script_only_downloads:
  "\<exists>st. script w = Inr st
      \<and> take 3 (trace st) = [Model_cuda, Download ''/tmp'' True, Download ''/tmp'' False]
      \<and> filter file_system_effect (drop 3 (trace st)) = []"
proof -
  obtain net where n: "new_CapsuleNet (init w) = Inr net"
    using new_CapsuleNet_topology by blast
  let ?st = "emit (Download ''/tmp'' False) (emit (Download ''/tmp'' True) (emit Model_cuda
      \<lparr>model = net, steps = 0, training = True, reconstructions_var = None,
       correct_var = None, test_loss_var = None, trace = [], exc = None\<rparr>))"
  have t: "trace ?st = [Model_cuda, Download ''/tmp'' True, Download ''/tmp'' False]"
    by (simp add: emit_def)
  have "no_file_effect ?st (for_each (epoch w) ?st 0 (replicate 10 ()))"
    by (rule for_each_quiet) (rule epoch_quiet)
  then have "take 3 (trace (for_each (epoch w) ?st 0 (replicate 10 ()))) = trace ?st
      \<and> filter file_system_effect (drop 3 (trace (for_each (epoch w) ?st 0 (replicate 10 ())))) = []"
    unfolding no_file_effect_def t by (simp add: numeral_3_eq_3)
  then show ?thesis unfolding script_def n Let_def sum.case t by simp
qed

theorem script_only_downloads_witness:
  "script w0
   = Inr \<lparr>model = net0, steps = 7500, training = False,
          reconstructions_var = Some (Inr (full [8, 784] (1 / 2))),
          correct_var = Some 0, test_loss_var = Some (Ten (Inr loss8)),
          trace = [Model_cuda, Download ''/tmp'' True, Download ''/tmp'' False, Model_train]
                  @ concat (map train_events [0..<7500]) @ [Forward, Compute_loss],
          exc = Some RuntimeError\<rparr>
   \<and> take 3 ([Model_cuda, Download ''/tmp'' True, Download ''/tmp'' False, Model_train]
              @ concat (map train_events [0..<7500]) @ [Forward, Compute_loss])
     = [Model_cuda, Download ''/tmp'' True, Download ''/tmp'' False]
   \<and> filter file_system_effect
        (drop 3 ([Model_cuda, Download ''/tmp'' True, Download ''/tmp'' False, Model_train]
                 @ concat (map train_events [0..<7500]) @ [Forward, Compute_loss])) = []"
  using script_only_downloads[of w0] unfolding script_w0 by simp

section \<open>C10: a batch of one image\<close>

text \<open>
  Claim C10 says that \<open>forward\<close> returns class scores of shape \<open>(n, 10)\<close> and
  reconstructions of shape \<open>(n, 784)\<close> for every \<open>n \<ge> 1\<close>, with and without labels.  On
  one black image the network with simple parameters raises in both modes:
  \<open>squeeze()\<close> also drops the batch dimension, the transposed tensor has shape
  \<open>(16, 10)\<close>, the class scores have shape \<open>(16)\<close>, and neither the product with the
  labels of shape \<open>(1, 10, 1)\<close> nor \<open>max(dim=1)\<close> is defined.  On two black images the
  same network returns scores of shape \<open>(2, 10)\<close> and reconstructions of shape
  \<open>(2, 784)\<close>.
\<close>

theorem CapsuleNet_forward_single_image_raises:
  "CapsuleNet_forward net0 (Inr (black 1)) (Some (Inr (zeros_hot 1))) = Inl RuntimeError
   \<and> CapsuleNet_forward net0 (Inr (black 1)) None = Inl RuntimeError
   \<and> shape (black 1) = [1, 1, 28, 28] \<and> shape (zeros_hot 1) = [1, 10]
   \<and> CapsuleNet_forward net0 (Inr (black 2)) (Some (Inr (zeros_hot 2)))
       = Inr (full [2, 10] (1 / 10), full [2, 784] (1 / 2))"
proof -
  have 1: "CapsuleNet_forward net0 (Inr (black 1)) (Some (Inr (zeros_hot 1))) = Inl RuntimeError"
    by (rule net0_forward_single_given) (simp add: zeros_hot_def shape_tgen)
  have 2: "CapsuleNet_forward net0 (Inr (black 2)) (Some (Inr (zeros_hot 2)))
     = Inr (full [2, 10] (1 / 10), full [2, 784] (1 / 2))"
    by (rule net0_forward_given) (simp_all add: zeros_hot_def shape_tgen)
  show ?thesis
    using 1 2 net0_forward_single_omitted by (simp add: black_def zeros_hot_def shape_full shape_tgen)
qed

end
